theory Spec2Isabelle
  imports
    Complex_Main
    "HOL-Library.Sublist"
    "HOL-Library.List_Lexorder"
    "HOL-Library.Product_Lexorder"
begin

section \<open>Tables\<close>

text \<open>
  The schema of \<^verbatim>\<open>supabase/complete_setup.sql\<close>, with the columns that
  \<^verbatim>\<open>supabase/transaction_schema_fixed.sql\<close> adds to \<^verbatim>\<open>todos\<close>
  (\<^verbatim>\<open>version INTEGER DEFAULT 1\<close> and \<^verbatim>\<open>updated_at\<close>). A table is the list of
  its rows. A UUID is a natural number, a \<^verbatim>\<open>TIMESTAMPTZ\<close> is its number of
  microseconds, an \<^verbatim>\<open>INTEGER\<close> is an \<^typ>\<open>int\<close> whose 32-bit range is written
  out where the code can leave it: PostgreSQL raises \<^verbatim>\<open>integer out of range\<close>
  there, it does not wrap. A \<^verbatim>\<open>TEXT\<close> is the list of its characters, a character
  being its Unicode code point (\<^verbatim>\<open>LENGTH\<close>, \<^verbatim>\<open>SUBSTRING\<close> and \<^verbatim>\<open>LIKE\<close>
  count characters, not bytes); \<open>ascii\<close> writes a text of ASCII characters. Of the
  columns only \<^verbatim>\<open>category_id\<close> is taken to be \<^verbatim>\<open>NULL\<close> at times; the others hold
  a value, as the application's types for the rows and for the arguments of the
  functions have it (a list of ids, a title, a flag, a version are never \<^verbatim>\<open>NULL\<close>
  there).
\<close>

type_synonym uuid = nat
type_synonym timestamptz = int
type_synonym uchar = nat
type_synonym ustring = "uchar list"

definition ascii :: "string \<Rightarrow> ustring" where
  "ascii s = map of_char s"

record profile =
  prof_id :: uuid
  prof_created_at :: timestamptz
  prof_updated_at :: timestamptz

record category =
  cat_id :: uuid
  cat_user_id :: uuid
  cat_name :: ustring
  cat_color :: ustring
  cat_created_at :: timestamptz
  cat_updated_at :: timestamptz

record todo =
  todo_id :: uuid
  todo_user_id :: uuid
  title :: ustring
  is_complete :: bool
  category_id :: "uuid option"
  created_at :: timestamptz
  updated_at :: timestamptz
  version :: int

record db =
  profiles :: "profile list"
  categories :: "category list"
  todos :: "todo list"

text \<open>
  \<^verbatim>\<open>SQLERRM\<close>: the message of the exception a function body raised. The constructors
  stand for the texts
  \<^item> \<^verbatim>\<open>Some todos could not be updated. Expected: %, Updated: %\<close>,
  \<^item> \<^verbatim>\<open>Some todos could not be updated\<close>,
  \<^item> \<^verbatim>\<open>Category does not exist or access denied\<close>,
  \<^item> \<^verbatim>\<open>Todo not found or access denied\<close>,
  \<^item> \<^verbatim>\<open>Version conflict: Todo was modified by another process\<close>,
  \<^item> \<^verbatim>\<open>Some todos could not be deleted. Expected: %, Deleted: %\<close>,
  \<^item> \<^verbatim>\<open>integer out of range\<close> (raised by \<^verbatim>\<open>OLD.version + 1\<close>),
  \<^item> the violation of \<^verbatim>\<open>category_id UUID REFERENCES categories(id)\<close>,
  \<^item> \<^verbatim>\<open>LIMIT must not be negative\<close>,
  \<^item> \<^verbatim>\<open>OFFSET must not be negative\<close>.
\<close>

datatype sqlerrm =
    SomeTodosNotUpdated "int option" int
  | SomeTodosNotUpdatedPlain
  | CategoryNotExists
  | TodoNotFound
  | VersionConflict
  | SomeTodosNotDeleted "int option" int
  | IntegerOutOfRange
  | ForeignKeyViolation
  | NegativeLimit
  | NegativeOffset

definition INT_MAX :: int where
  "INT_MAX = 2147483647"

section \<open>The version trigger\<close>

text \<open>
  \<^verbatim>\<open>increment_version()\<close>, the trigger \<^verbatim>\<open>update_todo_version BEFORE UPDATE ON todos
  FOR EACH ROW\<close>: whatever the statement put into \<^verbatim>\<open>NEW\<close>,
  \<^verbatim>\<open>NEW.version = OLD.version + 1\<close> and \<^verbatim>\<open>NEW.updated_at = now\<close>. The sum is an
  \<^verbatim>\<open>INTEGER\<close>: beyond \<^term>\<open>INT_MAX\<close> it raises.
\<close>

definition increment_version :: "timestamptz \<Rightarrow> todo \<Rightarrow> todo \<Rightarrow> sqlerrm + todo" where
  "increment_version now old new =
     (if version old + 1 > INT_MAX then Inl IntegerOutOfRange
      else Inr (new\<lparr>version := version old + 1, updated_at := now\<rparr>))"

text \<open>
  \<^verbatim>\<open>UPDATE todos SET ... WHERE ...\<close>: every row the condition \<open>P\<close> selects is
  replaced by what \<open>f\<close> (the \<^verbatim>\<open>SET\<close> list) makes of it, passed through the trigger;
  an exception of the trigger aborts the statement. The result is the new table and the
  rows as updated (what \<^verbatim>\<open>RETURNING\<close> sees; their number is \<^verbatim>\<open>ROW_COUNT\<close>).
\<close>

fun update_todos ::
  "timestamptz \<Rightarrow> (todo \<Rightarrow> bool) \<Rightarrow> (todo \<Rightarrow> todo) \<Rightarrow> todo list \<Rightarrow> sqlerrm + (todo list \<times> todo list)"
where
  "update_todos now P f [] = Inr ([], [])"
| "update_todos now P f (t # ts) =
     (if P t then
        (case increment_version now t (f t) of
           Inl e \<Rightarrow> Inl e
         | Inr t' \<Rightarrow>
             (case update_todos now P f ts of
                Inl e \<Rightarrow> Inl e
              | Inr (ts', rs) \<Rightarrow> Inr (t' # ts', t' # rs)))
      else
        (case update_todos now P f ts of
           Inl e \<Rightarrow> Inl e
         | Inr (ts', rs) \<Rightarrow> Inr (t # ts', rs)))"

definition row_count :: "'a list \<Rightarrow> int" where
  "row_count rs = int (length rs)"

text \<open>
  \<^verbatim>\<open>array_length(a, 1)\<close> is \<^verbatim>\<open>NULL\<close> for the empty array, and
  \<^verbatim>\<open>x != NULL\<close> is \<^verbatim>\<open>NULL\<close>; an \<^verbatim>\<open>IF\<close> runs its branch only on
  \<^verbatim>\<open>TRUE\<close>.
\<close>

definition array_length :: "'a list \<Rightarrow> int option" where
  "array_length a = (if a = [] then None else Some (int (length a)))"

definition sql_ne :: "int \<Rightarrow> int option \<Rightarrow> bool option" where
  "sql_ne x y = (case y of None \<Rightarrow> None | Some v \<Rightarrow> Some (x \<noteq> v))"

definition is_true :: "bool option \<Rightarrow> bool" where
  "is_true b = (b = Some True)"

section \<open>Bulk operations\<close>

text \<open>
  Each function is a body that may raise, inside
  \<^verbatim>\<open>EXCEPTION WHEN OTHERS THEN RETURN QUERY SELECT false, 0, SQLERRM\<close>: the handler
  rolls the body's writes back, so the database after a failure is the one before the
  call. A result row is \<open>(success, count, error_message)\<close>.
\<close>

type_synonym bulk_result = "bool \<times> int \<times> sqlerrm option"

definition catch_others :: "db \<Rightarrow> sqlerrm + (bulk_result \<times> db) \<Rightarrow> bulk_result \<times> db" where
  "catch_others s body =
     (case body of Inl e \<Rightarrow> ((False, 0, Some e), s) | Inr r \<Rightarrow> r)"

text \<open>\<^verbatim>\<open>bulk_update_todos\<close>: the \<^verbatim>\<open>FOREACH\<close> loop, one \<^verbatim>\<open>UPDATE\<close> per id.\<close>

fun bulk_update_loop ::
  "timestamptz \<Rightarrow> uuid \<Rightarrow> bool \<Rightarrow> uuid list \<Rightarrow> todo list \<Rightarrow> int \<Rightarrow> sqlerrm + (todo list \<times> int)"
where
  "bulk_update_loop now p_user_id p_is_complete [] ts v_updated_count =
     Inr (ts, v_updated_count)"
| "bulk_update_loop now p_user_id p_is_complete (v_todo_id # ids) ts v_updated_count =
     (case update_todos now
             (\<lambda>t. todo_id t = v_todo_id \<and> todo_user_id t = p_user_id)
             (\<lambda>t. t\<lparr>is_complete := p_is_complete\<rparr>) ts of
        Inl e \<Rightarrow> Inl e
      | Inr (ts', rs) \<Rightarrow>
          bulk_update_loop now p_user_id p_is_complete ids ts'
            (v_updated_count + row_count rs))"

definition bulk_update_todos_body ::
  "timestamptz \<Rightarrow> uuid \<Rightarrow> uuid list \<Rightarrow> bool \<Rightarrow> db \<Rightarrow> sqlerrm + (bulk_result \<times> db)"
where
  "bulk_update_todos_body now p_user_id p_todo_ids p_is_complete s =
     (case bulk_update_loop now p_user_id p_is_complete p_todo_ids (todos s) 0 of
        Inl e \<Rightarrow> Inl e
      | Inr (ts', v_updated_count) \<Rightarrow>
          if is_true (sql_ne v_updated_count (array_length p_todo_ids))
          then Inl (SomeTodosNotUpdated (array_length p_todo_ids) v_updated_count)
          else Inr ((True, v_updated_count, None), s\<lparr>todos := ts'\<rparr>))"

definition bulk_update_todos ::
  "timestamptz \<Rightarrow> uuid \<Rightarrow> uuid list \<Rightarrow> bool \<Rightarrow> db \<Rightarrow> bulk_result \<times> db"
where
  "bulk_update_todos now p_user_id p_todo_ids p_is_complete s =
     catch_others s (bulk_update_todos_body now p_user_id p_todo_ids p_is_complete s)"

text \<open>\<^verbatim>\<open>bulk_update_todos_efficient\<close>: one \<^verbatim>\<open>UPDATE ... WHERE id = ANY(p_todo_ids)\<close>.\<close>

definition bulk_update_todos_efficient_body ::
  "timestamptz \<Rightarrow> uuid \<Rightarrow> uuid list \<Rightarrow> bool \<Rightarrow> db \<Rightarrow> sqlerrm + (bulk_result \<times> db)"
where
  "bulk_update_todos_efficient_body now p_user_id p_todo_ids p_is_complete s =
     (case update_todos now
             (\<lambda>t. todo_id t \<in> set p_todo_ids \<and> todo_user_id t = p_user_id)
             (\<lambda>t. t\<lparr>is_complete := p_is_complete\<rparr>) (todos s) of
        Inl e \<Rightarrow> Inl e
      | Inr (ts', rs) \<Rightarrow>
          if is_true (sql_ne (row_count rs) (array_length p_todo_ids))
          then Inl (SomeTodosNotUpdated (array_length p_todo_ids) (row_count rs))
          else Inr ((True, row_count rs, None), s\<lparr>todos := ts'\<rparr>))"

definition bulk_update_todos_efficient ::
  "timestamptz \<Rightarrow> uuid \<Rightarrow> uuid list \<Rightarrow> bool \<Rightarrow> db \<Rightarrow> bulk_result \<times> db"
where
  "bulk_update_todos_efficient now p_user_id p_todo_ids p_is_complete s =
     catch_others s
       (bulk_update_todos_efficient_body now p_user_id p_todo_ids p_is_complete s)"

text \<open>
  \<^verbatim>\<open>bulk_change_category\<close>: the category, when one is given, must exist and belong to
  the caller before any row is touched.
\<close>

definition category_exists :: "uuid \<Rightarrow> uuid \<Rightarrow> category list \<Rightarrow> bool" where
  "category_exists p_category_id p_user_id cs =
     list_ex (\<lambda>c. cat_id c = p_category_id \<and> cat_user_id c = p_user_id) cs"

definition bulk_change_category_body ::
  "timestamptz \<Rightarrow> uuid \<Rightarrow> uuid list \<Rightarrow> uuid option \<Rightarrow> db \<Rightarrow> sqlerrm + (bulk_result \<times> db)"
where
  "bulk_change_category_body now p_user_id p_todo_ids p_category_id s =
     (if (case p_category_id of
            None \<Rightarrow> False
          | Some c \<Rightarrow> \<not> category_exists c p_user_id (categories s))
      then Inl CategoryNotExists
      else
        (case update_todos now
                (\<lambda>t. todo_id t \<in> set p_todo_ids \<and> todo_user_id t = p_user_id)
                (\<lambda>t. t\<lparr>category_id := p_category_id\<rparr>) (todos s) of
           Inl e \<Rightarrow> Inl e
         | Inr (ts', rs) \<Rightarrow>
             if is_true (sql_ne (row_count rs) (array_length p_todo_ids))
             then Inl SomeTodosNotUpdatedPlain
             else Inr ((True, row_count rs, None), s\<lparr>todos := ts'\<rparr>)))"

definition bulk_change_category ::
  "timestamptz \<Rightarrow> uuid \<Rightarrow> uuid list \<Rightarrow> uuid option \<Rightarrow> db \<Rightarrow> bulk_result \<times> db"
where
  "bulk_change_category now p_user_id p_todo_ids p_category_id s =
     catch_others s (bulk_change_category_body now p_user_id p_todo_ids p_category_id s)"

text \<open>
  \<^verbatim>\<open>bulk_delete_todos\<close>: \<^verbatim>\<open>DELETE FROM todos WHERE id = ANY(p_todo_ids) AND user_id =
  p_user_id\<close>; no trigger fires on a delete.
\<close>

definition delete_todos :: "(todo \<Rightarrow> bool) \<Rightarrow> todo list \<Rightarrow> todo list \<times> todo list" where
  "delete_todos P ts = (filter (\<lambda>t. \<not> P t) ts, filter P ts)"

definition bulk_delete_todos_body ::
  "uuid \<Rightarrow> uuid list \<Rightarrow> db \<Rightarrow> sqlerrm + (bulk_result \<times> db)"
where
  "bulk_delete_todos_body p_user_id p_todo_ids s =
     (case delete_todos (\<lambda>t. todo_id t \<in> set p_todo_ids \<and> todo_user_id t = p_user_id)
             (todos s) of
        (ts', rs) \<Rightarrow>
          if is_true (sql_ne (row_count rs) (array_length p_todo_ids))
          then Inl (SomeTodosNotDeleted (array_length p_todo_ids) (row_count rs))
          else Inr ((True, row_count rs, None), s\<lparr>todos := ts'\<rparr>))"

definition bulk_delete_todos :: "uuid \<Rightarrow> uuid list \<Rightarrow> db \<Rightarrow> bulk_result \<times> db" where
  "bulk_delete_todos p_user_id p_todo_ids s =
     catch_others s (bulk_delete_todos_body p_user_id p_todo_ids s)"

section \<open>Optimistic locking\<close>

text \<open>
  \<^verbatim>\<open>update_todo_with_version\<close>. The \<^verbatim>\<open>UPDATE\<close> selects on id, owner and version;
  \<^verbatim>\<open>RETURNING version INTO v_new_version\<close> reads the version the trigger stored
  (\<^verbatim>\<open>NULL\<close> when no row came back). The statement ends with the check of
  \<^verbatim>\<open>category_id UUID REFERENCES categories(id)\<close>, made for the rows whose
  \<^verbatim>\<open>category_id\<close> changed to a value that is not \<^verbatim>\<open>NULL\<close>. The handler returns
  \<^verbatim>\<open>false, 0, SQLERRM\<close>.
\<close>

type_synonym version_result = "bool \<times> int option \<times> sqlerrm option"

definition fk_violation ::
  "category list \<Rightarrow> (todo \<Rightarrow> bool) \<Rightarrow> uuid option \<Rightarrow> todo list \<Rightarrow> bool"
where
  "fk_violation cs P p_category_id ts =
     (case p_category_id of
        None \<Rightarrow> False
      | Some c \<Rightarrow>
          list_ex (\<lambda>t. P t \<and> category_id t \<noteq> Some c) ts
          \<and> \<not> list_ex (\<lambda>k. cat_id k = c) cs)"

definition update_todo_with_version_body ::
  "timestamptz \<Rightarrow> uuid \<Rightarrow> uuid \<Rightarrow> ustring \<Rightarrow> bool \<Rightarrow> uuid option \<Rightarrow> int \<Rightarrow> db
     \<Rightarrow> sqlerrm + (version_result \<times> db)"
where
  "update_todo_with_version_body now p_user_id p_todo_id p_title p_is_complete p_category_id
       p_expected_version s =
     (let P = (\<lambda>t. todo_id t = p_todo_id \<and> todo_user_id t = p_user_id
                  \<and> version t = p_expected_version)
      in case update_todos now P
                (\<lambda>t. t\<lparr>title := p_title, is_complete := p_is_complete,
                        category_id := p_category_id\<rparr>) (todos s) of
           Inl e \<Rightarrow> Inl e
         | Inr (ts', rs) \<Rightarrow>
             if fk_violation (categories s) P p_category_id (todos s)
             then Inl ForeignKeyViolation
             else
               (let v_new_version = (case rs of [] \<Rightarrow> None | r # _ \<Rightarrow> Some (version r));
                    v_updated_count = row_count rs
                in if v_updated_count = 0 then
                     (if \<not> list_ex (\<lambda>t. todo_id t = p_todo_id \<and> todo_user_id t = p_user_id) ts'
                      then Inl TodoNotFound
                      else Inl VersionConflict)
                   else Inr ((True, v_new_version, None), s\<lparr>todos := ts'\<rparr>)))"

definition update_todo_with_version ::
  "timestamptz \<Rightarrow> uuid \<Rightarrow> uuid \<Rightarrow> ustring \<Rightarrow> bool \<Rightarrow> uuid option \<Rightarrow> int \<Rightarrow> db
     \<Rightarrow> version_result \<times> db"
where
  "update_todo_with_version now p_user_id p_todo_id p_title p_is_complete p_category_id
       p_expected_version s =
     (case update_todo_with_version_body now p_user_id p_todo_id p_title p_is_complete
             p_category_id p_expected_version s of
        Inl e \<Rightarrow> ((False, Some 0, Some e), s)
      | Inr r \<Rightarrow> r)"

section \<open>Sequences of UPDATE statements\<close>

text \<open>
  Any \<^verbatim>\<open>UPDATE\<close> on \<^verbatim>\<open>todos\<close>, from a function above or from a client, is a time, a
  \<^verbatim>\<open>WHERE\<close> condition and a \<^verbatim>\<open>SET\<close> list. \<open>run_updates\<close> runs a sequence of them and
  stops at the first that raises; \<open>hits\<close> counts, along the same run, the statements
  that selected the row at position \<open>k\<close>.
\<close>

type_synonym update_stmt = "timestamptz \<times> (todo \<Rightarrow> bool) \<times> (todo \<Rightarrow> todo)"

fun run_updates :: "update_stmt list \<Rightarrow> todo list \<Rightarrow> sqlerrm + todo list" where
  "run_updates [] ts = Inr ts"
| "run_updates ((now, P, f) # stmts) ts =
     (case update_todos now P f ts of
        Inl e \<Rightarrow> Inl e
      | Inr (ts', rs) \<Rightarrow> run_updates stmts ts')"

fun hits :: "update_stmt list \<Rightarrow> todo list \<Rightarrow> nat \<Rightarrow> nat" where
  "hits [] ts k = 0"
| "hits ((now, P, f) # stmts) ts k =
     (case update_todos now P f ts of
        Inl e \<Rightarrow> 0
      | Inr (ts', rs) \<Rightarrow> (if P (ts ! k) then 1 else 0) + hits stmts ts' k)"

section \<open>Provisioning a new user\<close>

text \<open>
  \<^verbatim>\<open>create_profile_for_user\<close> (\<^verbatim>\<open>AFTER INSERT ON auth.users\<close>) inserts the profile
  \<^verbatim>\<open>ON CONFLICT DO NOTHING\<close>; a profile row that was inserted fires
  \<^verbatim>\<open>create_default_categories\<close> (\<^verbatim>\<open>AFTER INSERT ON profiles\<close>), which inserts the
  four starter categories \<^verbatim>\<open>ON CONFLICT DO NOTHING\<close>. The starter names are Japanese
  words, written here by their code points. A row conflicts when it repeats a primary
  key or a \<^verbatim>\<open>(user_id, name)\<close> pair; the rows of one \<^verbatim>\<open>INSERT\<close> go in one after the
  other. \<open>gen k\<close> is the value \<^verbatim>\<open>gen_random_uuid()\<close> gives the \<open>k\<close>-th row.
\<close>

definition default_categories :: "(ustring \<times> ustring) list" where
  "default_categories =
     [([0x4ED5, 0x4E8B], ascii ''#EF4444''),
      ([0x500B, 0x4EBA], ascii ''#10B981''),
      ([0x52C9, 0x5F37], ascii ''#8B5CF6''),
      ([0x8CB7, 0x3044, 0x7269], ascii ''#F59E0B'')]"

definition category_conflict :: "category \<Rightarrow> category list \<Rightarrow> bool" where
  "category_conflict r cs =
     list_ex (\<lambda>c. cat_id c = cat_id r
                \<or> (cat_user_id c = cat_user_id r \<and> cat_name c = cat_name r)) cs"

fun insert_categories :: "category list \<Rightarrow> category list \<Rightarrow> category list" where
  "insert_categories [] cs = cs"
| "insert_categories (r # rs) cs =
     insert_categories rs (if category_conflict r cs then cs else cs @ [r])"

definition default_rows :: "timestamptz \<Rightarrow> (nat \<Rightarrow> uuid) \<Rightarrow> uuid \<Rightarrow> category list" where
  "default_rows now gen new_id =
     map (\<lambda>(k, n, c). \<lparr>cat_id = gen k, cat_user_id = new_id, cat_name = n, cat_color = c,
                        cat_created_at = now, cat_updated_at = now\<rparr>)
       (enumerate 0 default_categories)"

definition create_default_categories :: "timestamptz \<Rightarrow> (nat \<Rightarrow> uuid) \<Rightarrow> uuid \<Rightarrow> db \<Rightarrow> db" where
  "create_default_categories now gen new_id s =
     s\<lparr>categories := insert_categories (default_rows now gen new_id) (categories s)\<rparr>"

definition create_profile_for_user :: "timestamptz \<Rightarrow> (nat \<Rightarrow> uuid) \<Rightarrow> uuid \<Rightarrow> db \<Rightarrow> db" where
  "create_profile_for_user now gen new_id s =
     (if list_ex (\<lambda>p. prof_id p = new_id) (profiles s) then s
      else create_default_categories now gen new_id
             (s\<lparr>profiles := profiles s
                   @ [\<lparr>prof_id = new_id, prof_created_at = now, prof_updated_at = now\<rparr>]\<rparr>))"

section \<open>Floats\<close>

text \<open>
  PostgreSQL's \<^verbatim>\<open>real\<close> is the IEEE 754 single-precision float and \<^verbatim>\<open>FLOAT\<close> the
  double-precision one. A float is the real number it stands for, so widening a
  \<^verbatim>\<open>real\<close> to a \<^verbatim>\<open>FLOAT\<close> changes nothing. \<open>float4 x\<close> and \<open>float8 x\<close> are the
  floats nearest to \<open>x\<close>, the one with the even significand when two are equally near:
  \<open>x\<close> is scaled by a power of two until it has 24 (or 53) binary digits before the
  point, rounded to an integer and scaled back. Scaling up stops at the exponent of the
  subnormal floats, 149 (or 1074). Scaling down stops at 104 (or 971), so a value that
  reaches \<open>2 ^ 128\<close> (or \<open>2 ^ 1024\<close>) is beyond the floats and is not rounded to one;
  what is rounded here are ranks, similarities and numbers of trigrams.
\<close>

definition round_half_even :: "real \<Rightarrow> int" where
  "round_half_even x =
     (let n = \<lfloor>x\<rfloor>; r = x - of_int n
      in if r < 1 / 2 then n else if r > 1 / 2 then n + 1 else if even n then n else n + 1)"

fun scale_up :: "real \<Rightarrow> nat \<Rightarrow> real \<Rightarrow> nat" where
  "scale_up b 0 x = 0"
| "scale_up b (Suc n) x = (if b \<le> x then 0 else Suc (scale_up b n (2 * x)))"

fun scale_down :: "real \<Rightarrow> nat \<Rightarrow> real \<Rightarrow> nat" where
  "scale_down b 0 x = 0"
| "scale_down b (Suc n) x = (if x < b then 0 else Suc (scale_down b n (x / 2)))"

definition float_round :: "nat \<Rightarrow> nat \<Rightarrow> nat \<Rightarrow> real \<Rightarrow> real" where
  "float_round p emin emax x =
     (let u = scale_up (2 ^ (p - 1)) emin \<bar>x\<bar>; d = scale_down (2 ^ p) emax \<bar>x\<bar>
      in real_of_int (round_half_even (x * 2 ^ u / 2 ^ d)) * 2 ^ d / 2 ^ u)"

definition float4 :: "real \<Rightarrow> real" where
  "float4 x = float_round 24 149 104 x"

definition float8 :: "real \<Rightarrow> real" where
  "float8 x = float_round 53 1074 971 x"

section \<open>Search and pagination\<close>

text \<open>
  \<^verbatim>\<open>supabase/search_pagination_working.sql\<close>. \<^verbatim>\<open>TRIM\<close> removes the spaces at both
  ends. What \<^verbatim>\<open>LOWER\<close> does to a text depends on the locale of the database: in the
  locale \<^verbatim>\<open>C\<close> it changes the letters \<open>A\<close> to \<open>Z\<close> only, in \<^verbatim>\<open>en_US.UTF-8\<close> it also
  turns the capital E with an acute accent, \<open>U+00C9\<close>, into the small one, \<open>U+00E9\<close>.
  So the functions below take \<^verbatim>\<open>LOWER\<close> as their parameter \<open>lower\<close>, as they take
  \<^verbatim>\<open>similarity\<close> of the extension \<^verbatim>\<open>pg_trgm\<close> as \<open>sim\<close>.
\<close>

definition trim :: "ustring \<Rightarrow> ustring" where
  "trim s = rev (dropWhile (\<lambda>c. c = of_char CHR '' '')
                   (rev (dropWhile (\<lambda>c. c = of_char CHR '' '') s)))"

text \<open>\<^verbatim>\<open>LOWER(TRIM(COALESCE(p_search_query, '')))\<close>\<close>

definition normalize_query :: "(ustring \<Rightarrow> ustring) \<Rightarrow> ustring option \<Rightarrow> ustring" where
  "normalize_query lower p = lower (trim (case p of None \<Rightarrow> [] | Some q \<Rightarrow> q))"

text \<open>
  PostgreSQL's \<^verbatim>\<open>LIKE\<close>, as its manual defines it: in a pattern \<^verbatim>\<open>%\<close> stands for
  any sequence of characters, \<^verbatim>\<open>_\<close> for any one character, and a backslash makes the
  character after it stand for itself. The functions below build their patterns by
  appending \<^verbatim>\<open>%\<close> to the search term, without escaping the term, so a pattern never
  ends in a lone backslash (on which PostgreSQL raises an error; here it matches
  nothing).
\<close>

fun like_match :: "ustring \<Rightarrow> ustring \<Rightarrow> bool" where
  "like_match [] s = (s = [])"
| "like_match (p # ps) [] = (p = of_char CHR ''%'' \<and> like_match ps [])"
| "like_match (p # ps) (c # cs) =
     (if p = of_char CHR ''%'' then like_match ps (c # cs) \<or> like_match (p # ps) cs
      else if p = of_char CHR ''_'' then like_match ps cs
      else if p = of_char CHR 0x5C then
        (case ps of [] \<Rightarrow> False | q # qs \<Rightarrow> q = c \<and> like_match qs cs)
      else p = c \<and> like_match ps cs)"

definition sql_like :: "ustring \<Rightarrow> ustring \<Rightarrow> bool" where
  "sql_like s pat = like_match pat s"

text \<open>
  \<^verbatim>\<open>LEFT JOIN categories c ON t.category_id = c.id\<close>: \<^verbatim>\<open>categories.id\<close> is the
  primary key, so a todo joins with at most one category.
\<close>

definition category_of :: "category list \<Rightarrow> todo \<Rightarrow> category option" where
  "category_of cs t =
     (case category_id t of None \<Rightarrow> None | Some k \<Rightarrow> find (\<lambda>c. cat_id c = k) cs)"

text \<open>
  The search condition shared by the functions, and the category filter.
  \<^verbatim>\<open>similarity\<close> returns a \<^verbatim>\<open>real\<close>; to compare it with the constant \<^verbatim>\<open>0.2\<close>
  PostgreSQL takes both to \<^verbatim>\<open>FLOAT\<close>.
\<close>

definition matches_query ::
  "(ustring \<Rightarrow> ustring) \<Rightarrow> (ustring \<Rightarrow> ustring \<Rightarrow> real) \<Rightarrow> ustring \<Rightarrow> todo \<Rightarrow> bool"
where
  "matches_query lower sim v_search_query t =
     (v_search_query = []
      \<or> sql_like (lower (title t)) (ascii ''%'' @ v_search_query @ ascii ''%'')
      \<or> sim (lower (title t)) v_search_query > float8 0.2)"

definition in_category :: "uuid option \<Rightarrow> todo \<Rightarrow> bool" where
  "in_category p_category_id t =
     (case p_category_id of None \<Rightarrow> True | Some k \<Rightarrow> category_id t = Some k)"

text \<open>
  The \<^verbatim>\<open>CASE\<close> that computes \<^verbatim>\<open>rank\<close>, also the first sort key. One of its
  branches is the \<^verbatim>\<open>real\<close> that \<^verbatim>\<open>similarity\<close> returns, so the \<^verbatim>\<open>CASE\<close> is of type
  \<^verbatim>\<open>real\<close> and its constants are taken to \<^verbatim>\<open>real\<close>; \<^verbatim>\<open>::FLOAT\<close> then widens the
  result.
\<close>

definition search_rank ::
  "(ustring \<Rightarrow> ustring) \<Rightarrow> (ustring \<Rightarrow> ustring \<Rightarrow> real) \<Rightarrow> ustring \<Rightarrow> todo \<Rightarrow> real"
where
  "search_rank lower sim v_search_query t =
     (if v_search_query \<noteq> [] then
        (if lower (title t) = v_search_query then float4 1.0
         else if sql_like (lower (title t)) (v_search_query @ ascii ''%'') then float4 0.8
         else if sql_like (lower (title t)) (ascii ''%'' @ v_search_query @ ascii ''%'')
           then float4 0.6
         else sim (lower (title t)) v_search_query)
      else float4 0)"

record search_row =
  sr_id :: uuid
  sr_title :: ustring
  sr_is_complete :: bool
  sr_category_id :: "uuid option"
  sr_created_at :: timestamptz
  sr_version :: int
  sr_category_name :: "ustring option"
  sr_category_color :: "ustring option"
  sr_rank :: real

definition search_row_of :: "category list \<Rightarrow> real \<Rightarrow> todo \<Rightarrow> search_row" where
  "search_row_of cs r t =
     \<lparr>sr_id = todo_id t, sr_title = title t, sr_is_complete = is_complete t,
      sr_category_id = category_id t, sr_created_at = created_at t, sr_version = version t,
      sr_category_name = map_option cat_name (category_of cs t),
      sr_category_color = map_option cat_color (category_of cs t),
      sr_rank = r\<rparr>"

text \<open>
  \<^verbatim>\<open>search_todos\<close>. \<^verbatim>\<open>ORDER BY rank DESC, created_at DESC\<close> is a sort on the pair of
  the negated keys; rows equal in both keys come in the order of the table, one of the
  orders SQL allows. A negative \<^verbatim>\<open>OFFSET\<close> or \<^verbatim>\<open>LIMIT\<close> raises, the offset being
  looked at first, and the function has no handler.
\<close>

definition search_todos ::
  "(ustring \<Rightarrow> ustring) \<Rightarrow> (ustring \<Rightarrow> ustring \<Rightarrow> real) \<Rightarrow> uuid \<Rightarrow> ustring option
     \<Rightarrow> uuid option \<Rightarrow> int \<Rightarrow> int \<Rightarrow> db \<Rightarrow> sqlerrm + search_row list"
where
  "search_todos lower sim p_user_id p_search_query p_category_id p_limit p_offset s =
     (let v_search_query = normalize_query lower p_search_query;
          selected = filter (\<lambda>t. todo_user_id t = p_user_id
                               \<and> matches_query lower sim v_search_query t
                               \<and> in_category p_category_id t) (todos s);
          ordered = sort_key (\<lambda>t. (- search_rank lower sim v_search_query t, - created_at t))
                      selected
      in if p_offset < 0 then Inl NegativeOffset
         else if p_limit < 0 then Inl NegativeLimit
         else Inr (map (\<lambda>t. search_row_of (categories s)
                              (search_rank lower sim v_search_query t) t)
                    (take (nat p_limit) (drop (nat p_offset) ordered))))"

record cursor_row =
  cr_id :: uuid
  cr_title :: ustring
  cr_is_complete :: bool
  cr_category_id :: "uuid option"
  cr_created_at :: timestamptz
  cr_version :: int
  cr_category_name :: "ustring option"
  cr_category_color :: "ustring option"
  has_more :: bool

definition cursor_row_of :: "category list \<Rightarrow> bool \<Rightarrow> todo \<Rightarrow> cursor_row" where
  "cursor_row_of cs flag t =
     \<lparr>cr_id = todo_id t, cr_title = title t, cr_is_complete = is_complete t,
      cr_category_id = category_id t, cr_created_at = created_at t, cr_version = version t,
      cr_category_name = map_option cat_name (category_of cs t),
      cr_category_color = map_option cat_color (category_of cs t),
      has_more = flag\<rparr>"

text \<open>
  \<^verbatim>\<open>get_todos_cursor\<close>. A \<^verbatim>\<open>NULL\<close> cursor becomes \<^verbatim>\<open>NOW() + INTERVAL '1 day'\<close>
  (86400000000 microseconds). \<^verbatim>\<open>p_limit + 1\<close> is an \<^verbatim>\<open>INTEGER\<close> sum. Rows with
  the same \<^verbatim>\<open>created_at\<close> come in the order of the table, one of the orders
  \<^verbatim>\<open>ORDER BY t.created_at DESC\<close> allows.
\<close>

definition get_todos_cursor ::
  "(ustring \<Rightarrow> ustring) \<Rightarrow> (ustring \<Rightarrow> ustring \<Rightarrow> real) \<Rightarrow> timestamptz \<Rightarrow> uuid
     \<Rightarrow> timestamptz option \<Rightarrow> int \<Rightarrow> ustring option \<Rightarrow> uuid option \<Rightarrow> db
     \<Rightarrow> sqlerrm + cursor_row list"
where
  "get_todos_cursor lower sim now p_user_id p_cursor p_limit p_search_query p_category_id s =
     (let v_search_query = normalize_query lower p_search_query;
          cursor = (case p_cursor of None \<Rightarrow> now + 86400000000 | Some c \<Rightarrow> c)
      in if p_limit + 1 > INT_MAX then Inl IntegerOutOfRange
         else if p_limit < 0 then Inl NegativeLimit
         else
           (let fetched_todos =
                  take (nat (p_limit + 1))
                    (sort_key (\<lambda>t. - created_at t)
                       (filter (\<lambda>t. todo_user_id t = p_user_id
                                  \<and> created_at t < cursor
                                  \<and> matches_query lower sim v_search_query t
                                  \<and> in_category p_category_id t) (todos s)));
                limited_todos = take (nat p_limit) fetched_todos
            in Inr (map (cursor_row_of (categories s) (int (length fetched_todos) > p_limit))
                      limited_todos)))"

text \<open>
  \<^verbatim>\<open>get_search_suggestions\<close>. The suggestion of a title (\<^verbatim>\<open>LENGTH\<close> and
  \<^verbatim>\<open>SUBSTRING\<close> count characters), the \<^verbatim>\<open>GROUP BY\<close> with \<^verbatim>\<open>COUNT(*)\<close>, and
  \<^verbatim>\<open>ORDER BY count DESC, suggestion\<close>. The order of two texts is that of the
  collation of the database, a deterministic one, which compares the keys it makes of
  them (\<open>strxfrm\<close>, the text itself in the locale \<^verbatim>\<open>C\<close>) and, when the keys are
  equal, their bytes, which in UTF-8 is their characters.
\<close>

definition suggestion_of :: "ustring \<Rightarrow> ustring" where
  "suggestion_of ttl = (if length ttl > 50 then take 47 ttl @ ascii ''...'' else ttl)"

definition get_search_suggestions ::
  "(ustring \<Rightarrow> ustring) \<Rightarrow> (ustring \<Rightarrow> nat list) \<Rightarrow> uuid \<Rightarrow> ustring option \<Rightarrow> int \<Rightarrow> db
     \<Rightarrow> sqlerrm + (ustring \<times> int) list"
where
  "get_search_suggestions lower strxfrm p_user_id p_query p_limit s =
     (let v_query = normalize_query lower p_query
      in if v_query = [] then Inr []
         else if p_limit < 0 then Inl NegativeLimit
         else
           (let suggestions =
                  map (\<lambda>t. suggestion_of (title t))
                    (filter (\<lambda>t. todo_user_id t = p_user_id
                               \<and> sql_like (lower (title t)) (v_query @ ascii ''%'')) (todos s));
                grouped = map (\<lambda>g. (g, int (count_list suggestions g))) (remdups suggestions)
            in Inr (take (nat p_limit)
                      (sort_key (\<lambda>(g, n). (- n, strxfrm g, g)) grouped))))"

text \<open>
  Two locales for the examples. In the locale \<^verbatim>\<open>C\<close> the letters are \<open>A\<close> to \<open>Z\<close> and
  \<open>a\<close> to \<open>z\<close>, the digits \<open>0\<close> to \<open>9\<close>, \<^verbatim>\<open>LOWER\<close> changes \<open>A\<close> to \<open>Z\<close> and the
  collation compares the texts themselves. \<open>lower_latin1\<close> is \<^verbatim>\<open>LOWER\<close> in a UTF-8
  locale on texts of characters below \<open>U+0100\<close>, where Unicode has the capital letters
  \<open>A\<close> to \<open>Z\<close> and \<open>U+00C0\<close> to \<open>U+00DE\<close> without the sign \<open>U+00D7\<close>, each 32 below
  its small letter; the letters there are those of \<^verbatim>\<open>C\<close>, \<open>U+00AA\<close>, \<open>U+00B5\<close>,
  \<open>U+00BA\<close> and \<open>U+00C0\<close> to \<open>U+00FF\<close> without the signs \<open>U+00D7\<close> and \<open>U+00F7\<close>.
\<close>

definition lower_c :: "ustring \<Rightarrow> ustring" where
  "lower_c s = map (\<lambda>c. if of_char CHR ''A'' \<le> c \<and> c \<le> of_char CHR ''Z'' then c + 32 else c) s"

definition alnum_c :: "uchar \<Rightarrow> bool" where
  "alnum_c c =
     ((of_char CHR ''a'' \<le> c \<and> c \<le> of_char CHR ''z'')
      \<or> (of_char CHR ''A'' \<le> c \<and> c \<le> of_char CHR ''Z'')
      \<or> (of_char CHR ''0'' \<le> c \<and> c \<le> of_char CHR ''9''))"

definition strxfrm_c :: "ustring \<Rightarrow> nat list" where
  "strxfrm_c s = s"

definition lower_latin1 :: "ustring \<Rightarrow> ustring" where
  "lower_latin1 s =
     map (\<lambda>c. if (0x41 \<le> c \<and> c \<le> 0x5A) \<or> (0xC0 \<le> c \<and> c \<le> 0xDE \<and> c \<noteq> 0xD7) then c + 32
              else c) s"

definition alnum_latin1 :: "uchar \<Rightarrow> bool" where
  "alnum_latin1 c =
     (alnum_c c \<or> c = 0xAA \<or> c = 0xB5 \<or> c = 0xBA
      \<or> (0xC0 \<le> c \<and> c \<le> 0xFF \<and> c \<noteq> 0xD7 \<and> c \<noteq> 0xF7))"

text \<open>
  The \<^verbatim>\<open>similarity\<close> of the extension \<^verbatim>\<open>pg_trgm\<close>, as the extension documents it
  and computes it: a text is cut into its words (runs of letters and digits), each word
  is put in lower case and gets two spaces in front and one behind, the trigrams of a
  text are the three-character substrings of its padded words, and the similarity of
  two texts is the number of trigrams they share divided by the number of trigrams of
  either, a division of two \<^verbatim>\<open>real\<close>s. What a letter is and what lower case is depend
  on the locale, the parameters \<open>alnum\<close> and \<open>lower\<close>. (For a trigram with a character of
  several bytes the extension keeps a hash of it; no two trigrams are taken to share a
  hash here.) It serves the examples; the properties hold for every function \<open>sim\<close>.
\<close>

fun words_of :: "(uchar \<Rightarrow> bool) \<Rightarrow> ustring \<Rightarrow> ustring \<Rightarrow> ustring list" where
  "words_of alnum w [] = (if w = [] then [] else [w])"
| "words_of alnum w (c # cs) =
     (if alnum c then words_of alnum (w @ [c]) cs
      else if w = [] then words_of alnum [] cs else w # words_of alnum [] cs)"

fun grams :: "ustring \<Rightarrow> ustring list" where
  "grams (a # b # c # cs) = [a, b, c] # grams (b # c # cs)"
| "grams cs = []"

definition trigrams ::
  "(ustring \<Rightarrow> ustring) \<Rightarrow> (uchar \<Rightarrow> bool) \<Rightarrow> ustring \<Rightarrow> ustring list"
where
  "trigrams lower alnum s =
     remdups (concat (map (\<lambda>w. grams (ascii ''  '' @ lower w @ ascii '' ''))
                        (words_of alnum [] s)))"

definition similarity ::
  "(ustring \<Rightarrow> ustring) \<Rightarrow> (uchar \<Rightarrow> bool) \<Rightarrow> ustring \<Rightarrow> ustring \<Rightarrow> real"
where
  "similarity lower alnum a b =
     (let ta = trigrams lower alnum a; tb = trigrams lower alnum b;
          n = length (filter (\<lambda>g. g \<in> set tb) ta)
      in if ta = [] \<or> tb = [] then 0
         else float4 (float4 (real n) / float4 (real (length ta + length tb - n))))"

text \<open>The similarity in the two locales of the examples.\<close>

abbreviation similarity_c :: "ustring \<Rightarrow> ustring \<Rightarrow> real" where
  "similarity_c \<equiv> similarity lower_c alnum_c"

abbreviation similarity_latin1 :: "ustring \<Rightarrow> ustring \<Rightarrow> real" where
  "similarity_latin1 \<equiv> similarity lower_latin1 alnum_latin1"

section \<open>Notions the properties are stated with\<close>

text \<open>
  The rows an \<^verbatim>\<open>UPDATE\<close> would make the trigger raise on, and a row as the trigger
  leaves it.
\<close>

definition overflows :: "(todo \<Rightarrow> bool) \<Rightarrow> todo list \<Rightarrow> bool" where
  "overflows P ts = list_ex (\<lambda>t. P t \<and> version t + 1 > INT_MAX) ts"

definition fired :: "timestamptz \<Rightarrow> (todo \<Rightarrow> todo) \<Rightarrow> todo \<Rightarrow> todo" where
  "fired now f t = (f t)\<lparr>version := version t + 1, updated_at := now\<rparr>"

text \<open>
  The row with id \<open>i\<close> that user \<open>u\<close> owns; the rows a set-based statement selects;
  the row count of the set-based statements and the count the loop accumulates.
\<close>

definition owned_by :: "uuid \<Rightarrow> uuid \<Rightarrow> todo \<Rightarrow> bool" where
  "owned_by u i t = (todo_id t = i \<and> todo_user_id t = u)"

definition requested :: "uuid \<Rightarrow> uuid list \<Rightarrow> todo \<Rightarrow> bool" where
  "requested u ids t = (todo_id t \<in> set ids \<and> todo_user_id t = u)"

definition affected_rows :: "uuid \<Rightarrow> uuid list \<Rightarrow> todo list \<Rightarrow> int" where
  "affected_rows u ids ts = row_count (filter (requested u ids) ts)"

definition affected_loop :: "uuid \<Rightarrow> uuid list \<Rightarrow> todo list \<Rightarrow> int" where
  "affected_loop u ids ts = sum_list (map (\<lambda>i. row_count (filter (owned_by u i) ts)) ids)"

text \<open>
  The row \<^verbatim>\<open>update_todo_with_version\<close> selects, a category argument the foreign key
  accepts, and the row as a successful call leaves it.
\<close>

definition locked :: "uuid \<Rightarrow> uuid \<Rightarrow> int \<Rightarrow> todo \<Rightarrow> bool" where
  "locked u i v t = (todo_id t = i \<and> todo_user_id t = u \<and> version t = v)"

definition category_known :: "uuid option \<Rightarrow> category list \<Rightarrow> bool" where
  "category_known p_category_id cs =
     (case p_category_id of None \<Rightarrow> True | Some c \<Rightarrow> list_ex (\<lambda>k. cat_id k = c) cs)"

definition edited ::
  "timestamptz \<Rightarrow> ustring \<Rightarrow> bool \<Rightarrow> uuid option \<Rightarrow> todo \<Rightarrow> todo" where
  "edited now ttl c cat t =
     t\<lparr>title := ttl, is_complete := c, category_id := cat,
       version := version t + 1, updated_at := now\<rparr>"

text \<open>
  Generated ids that are new to the table and differ from one another; a category of
  user \<open>u\<close> named \<open>n\<close>; the profile rows and the categories of a user.
\<close>

definition fresh_ids :: "(nat \<Rightarrow> uuid) \<Rightarrow> category list \<Rightarrow> bool" where
  "fresh_ids gen cs =
     (distinct (map gen [0..<4]) \<and> list_all (\<lambda>k. \<not> list_ex (\<lambda>c. cat_id c = gen k) cs) [0..<4])"

definition named :: "uuid \<Rightarrow> ustring \<Rightarrow> category \<Rightarrow> bool" where
  "named u n c = (cat_user_id c = u \<and> cat_name c = n)"

definition user_profiles :: "uuid \<Rightarrow> db \<Rightarrow> profile list" where
  "user_profiles u s = filter (\<lambda>p. prof_id p = u) (profiles s)"

definition user_categories :: "uuid \<Rightarrow> db \<Rightarrow> category list" where
  "user_categories u s = filter (\<lambda>c. cat_user_id c = u) (categories s)"

text \<open>
  A search term without a \<^verbatim>\<open>LIKE\<close> wildcard or escape; the tier of a title for a term,
  in the words of the specification, and the rank of the tier, the constants being
  those of the \<^verbatim>\<open>CASE\<close> as \<^verbatim>\<open>real\<close>s; the order of the result.
\<close>

definition plain :: "ustring \<Rightarrow> bool" where
  "plain v =
     list_all (\<lambda>c. c \<noteq> of_char CHR ''%'' \<and> c \<noteq> of_char CHR ''_'' \<and> c \<noteq> of_char CHR 0x5C) v"

datatype tier = Exact | Prefix | Substring | Fuzzy

definition tier_of :: "(ustring \<Rightarrow> ustring) \<Rightarrow> ustring \<Rightarrow> ustring \<Rightarrow> tier" where
  "tier_of lower v ttl =
     (if lower ttl = v then Exact
      else if prefix v (lower ttl) then Prefix
      else if sublist v (lower ttl) then Substring
      else Fuzzy)"

definition tier_rank ::
  "(ustring \<Rightarrow> ustring) \<Rightarrow> (ustring \<Rightarrow> ustring \<Rightarrow> real) \<Rightarrow> ustring \<Rightarrow> ustring \<Rightarrow> real"
where
  "tier_rank lower sim v ttl =
     (case tier_of lower v ttl of
        Exact \<Rightarrow> float4 1.0
      | Prefix \<Rightarrow> float4 0.8
      | Substring \<Rightarrow> float4 0.6
      | Fuzzy \<Rightarrow> sim (lower ttl) v)"

definition ranked_before :: "search_row \<Rightarrow> search_row \<Rightarrow> bool" where
  "ranked_before a b =
     (sr_rank a > sr_rank b
      \<or> (sr_rank a = sr_rank b \<and> sr_created_at a \<ge> sr_created_at b))"

text \<open>
  One day in microseconds; the cursor a call works with; the rows of the caller that
  pass the filters and lie before a cursor; a list of todos, newest first.
\<close>

definition day :: int where
  "day = 86400000000"

definition cursor_of :: "timestamptz \<Rightarrow> timestamptz option \<Rightarrow> timestamptz" where
  "cursor_of now p_cursor = (case p_cursor of None \<Rightarrow> now + day | Some c \<Rightarrow> c)"

definition candidates ::
  "(ustring \<Rightarrow> ustring) \<Rightarrow> (ustring \<Rightarrow> ustring \<Rightarrow> real) \<Rightarrow> uuid \<Rightarrow> timestamptz
     \<Rightarrow> ustring option \<Rightarrow> uuid option \<Rightarrow> db \<Rightarrow> todo list"
where
  "candidates lower sim u cursor q cat s =
     filter (\<lambda>t. todo_user_id t = u \<and> created_at t < cursor
               \<and> matches_query lower sim (normalize_query lower q) t \<and> in_category cat t)
       (todos s)"

definition newest_first :: "todo list \<Rightarrow> todo list" where
  "newest_first ts = sort_key (\<lambda>t. - created_at t) ts"

text \<open>
  The suggestions of the caller's todos whose lower-case title starts with the term;
  the distinct elements of a list with their numbers of occurrences; the order of the
  suggestions, texts being compared as the collation of the database compares them.
\<close>

definition prefix_suggestions :: "(ustring \<Rightarrow> ustring) \<Rightarrow> uuid \<Rightarrow> ustring \<Rightarrow> db \<Rightarrow> ustring list" where
  "prefix_suggestions lower u v s =
     map (\<lambda>t. suggestion_of (title t))
       (filter (\<lambda>t. todo_user_id t = u \<and> prefix v (lower (title t))) (todos s))"

definition counted :: "ustring list \<Rightarrow> (ustring \<times> int) list" where
  "counted gs = map (\<lambda>g. (g, int (count_list gs g))) (remdups gs)"

definition collated_le :: "(ustring \<Rightarrow> nat list) \<Rightarrow> ustring \<Rightarrow> ustring \<Rightarrow> bool" where
  "collated_le strxfrm a b = ((strxfrm a, a) \<le> (strxfrm b, b))"

definition suggested_before ::
  "(ustring \<Rightarrow> nat list) \<Rightarrow> ustring \<times> int \<Rightarrow> ustring \<times> int \<Rightarrow> bool"
where
  "suggested_before strxfrm a b =
     (snd a > snd b \<or> (snd a = snd b \<and> collated_le strxfrm (fst a) (fst b)))"

section \<open>Example databases\<close>

definition ex_todo :: "uuid \<Rightarrow> uuid \<Rightarrow> string \<Rightarrow> todo" where
  "ex_todo i u ttl = \<lparr>todo_id = i, todo_user_id = u, title = ascii ttl, is_complete = False,
     category_id = None, created_at = 0, updated_at = 0, version = 1\<rparr>"

text \<open>Todos 1 and 3 of user 10, todo 2 of user 20; user 10 owns category 5.\<close>

definition ex_db :: db where
  "ex_db = \<lparr>profiles = [],
     categories = [\<lparr>cat_id = 5, cat_user_id = 10, cat_name = ascii ''work'',
       cat_color = ascii ''#EF4444'',
       cat_created_at = 0, cat_updated_at = 0\<rparr>],
     todos = [ex_todo 1 10 ''A'', ex_todo 2 20 ''B'', ex_todo 3 10 ''C'']\<rparr>"

text \<open>Todo 1 of user 10 at the largest \<^verbatim>\<open>INTEGER\<close> version; no category exists.\<close>

definition big_db :: db where
  "big_db = \<lparr>profiles = [], categories = [],
     todos = [(ex_todo 1 10 ''A'')\<lparr>version := 2147483647\<rparr>, ex_todo 2 10 ''B'']\<rparr>"

text \<open>
  Two statements: one that tries to write the version itself, then one on every row.
\<close>

definition ex_stmts :: "update_stmt list" where
  "ex_stmts = [(7, owned_by 10 1, \<lambda>t. t\<lparr>version := 100\<rparr>), (8, \<lambda>t. True, \<lambda>t. t)]"

text \<open>The table of \<open>ex_db\<close> after the first of these statements, and after both.\<close>

definition ex_step1 :: "todo list" where
  "ex_step1 = [(ex_todo 1 10 ''A'')\<lparr>version := 2, updated_at := 7\<rparr>,
               ex_todo 2 20 ''B'', ex_todo 3 10 ''C'']"

definition ex_step2 :: "todo list" where
  "ex_step2 = [(ex_todo 1 10 ''A'')\<lparr>version := 3, updated_at := 8\<rparr>,
               (ex_todo 2 20 ''B'')\<lparr>version := 2, updated_at := 8\<rparr>,
               (ex_todo 3 10 ''C'')\<lparr>version := 2, updated_at := 8\<rparr>]"

text \<open>
  The titles of the specification's ranking example, with a title made of the words of
  the search term in another order, an unrelated title, another user's todo, and a
  title that shares two of its three trigrams with the nine of the term \<open>buy milk\<close>,
  a similarity of exactly one fifth before rounding.
\<close>

definition milk_db :: db where
  "milk_db = \<lparr>profiles = [], categories = [],
     todos = [(ex_todo 1 10 ''I need to buy milk'')\<lparr>created_at := 1\<rparr>,
              (ex_todo 2 10 ''Buy milk today'')\<lparr>created_at := 2\<rparr>,
              (ex_todo 3 10 ''Milk buy'')\<lparr>created_at := 3\<rparr>,
              (ex_todo 4 10 ''Buy milk'')\<lparr>created_at := 4\<rparr>,
              (ex_todo 5 10 ''Walk the dog'')\<lparr>created_at := 5\<rparr>,
              (ex_todo 6 20 ''Buy milk'')\<lparr>created_at := 6\<rparr>,
              (ex_todo 7 10 ''Bu'')\<lparr>created_at := 7\<rparr>]\<rparr>"

text \<open>
  The similarities of the lower-case titles of \<open>milk_db\<close> to the term \<open>buy milk\<close>, as a
  table: the \<^verbatim>\<open>real\<close>s nearest to 9/19, 9/15, 9/9, 1/21 and 2/10.
\<close>

definition milk_sim :: "ustring \<Rightarrow> ustring \<Rightarrow> real" where
  "milk_sim a b =
     (if a = ascii ''i need to buy milk'' then 15894205 / 33554432
      else if a = ascii ''buy milk today'' then 5033165 / 8388608
      else if a = ascii ''milk buy'' then 1
      else if a = ascii ''buy milk'' then 1
      else if a = ascii ''walk the dog'' then 12782641 / 268435456
      else if a = ascii ''bu'' then 13421773 / 67108864
      else 0)"

text \<open>
  Their similarities to the term \<open>b_y\<close>, which has the four trigrams of the words \<open>b\<close>
  and \<open>y\<close>: the \<^verbatim>\<open>real\<close>s nearest to 1/22, 1/18, 1/12, 0/17 and 1/6.
\<close>

definition wild_sim :: "ustring \<Rightarrow> ustring \<Rightarrow> real" where
  "wild_sim a b =
     (if a = ascii ''i need to buy milk'' then 3050403 / 67108864
      else if a = ascii ''buy milk today'' then 14913081 / 268435456
      else if a = ascii ''milk buy'' then 11184811 / 134217728
      else if a = ascii ''buy milk'' then 11184811 / 134217728
      else if a = ascii ''bu'' then 11184811 / 67108864
      else 0)"

text \<open>
  Twenty-five todos of user 10: created at the times 1 to 25 in \<open>page_db\<close>; in
  \<open>tie_db\<close> todo 5 is created at time 6, as todo 6 is.
\<close>

definition page_db :: db where
  "page_db = \<lparr>profiles = [], categories = [],
     todos = map (\<lambda>k. (ex_todo k 10 ''task'')\<lparr>created_at := int k\<rparr>) [1..<26]\<rparr>"

definition tie_db :: db where
  "tie_db = \<lparr>profiles = [], categories = [],
     todos = map (\<lambda>k. (ex_todo k 10 ''task'')\<lparr>created_at := (if k = 5 then 6 else int k)\<rparr>)
               [1..<26]\<rparr>"

text \<open>A todo whose title begins with a capital E with an acute accent (\<open>U+00C9\<close>).\<close>

definition ecole_db :: db where
  "ecole_db = \<lparr>profiles = [], categories = [],
     todos = [(ex_todo 1 10 [])\<lparr>title := 0xC9 # ascii ''cole''\<rparr>]\<rparr>"

text \<open>
  Titles that begin with a capital E with an acute accent (\<open>U+00C9\<close>), a capital E and
  a small e.
\<close>

definition accent_db :: db where
  "accent_db = \<lparr>profiles = [], categories = [],
     todos = [(ex_todo 1 10 [])\<lparr>title := 0xC9 # ascii ''cole''\<rparr>,
              ex_todo 2 10 ''Eel'', ex_todo 3 10 ''ear'']\<rparr>"

text \<open>A title of 51 characters among shorter ones.\<close>

definition long_title :: string where
  "long_title = replicate 51 (CHR ''a'')"

definition long_db :: db where
  "long_db = \<lparr>profiles = [], categories = [],
     todos = [ex_todo 1 10 long_title, ex_todo 2 10 ''Apple'', ex_todo 3 10 ''apple'',
              ex_todo 4 10 ''Apple'', ex_todo 5 10 ''banana'', ex_todo 6 20 ''avocado'']\<rparr>"


section \<open>The UPDATE statement in closed form\<close>

lemma update_todos_closed:
  "update_todos now P f ts =
     (if overflows P ts then Inl IntegerOutOfRange
      else Inr (map (\<lambda>t. if P t then fired now f t else t) ts, map (fired now f) (filter P ts)))"
  by (induction ts) (auto simp: overflows_def fired_def increment_version_def)

lemma update_todos_none:
  "\<forall>t\<in>set ts. \<not> P t \<Longrightarrow> update_todos now P f ts = Inr (ts, [])"
  by (induction ts) auto

lemma row_count_map [simp]: "row_count (map f xs) = row_count xs"
  by (simp add: row_count_def)

lemma filter_key_map:
  "(\<And>t. Q (g t) = Q t) \<Longrightarrow> length (filter Q (map g ts)) = length (filter Q ts)"
  by (induction ts) auto

lemma mismatch_true:
  "n \<noteq> int (length ids) \<Longrightarrow> ids \<noteq> [] \<Longrightarrow> is_true (sql_ne n (array_length ids))"
  by (simp add: is_true_def sql_ne_def array_length_def)

lemma affected_loop_Nil [simp]: "affected_loop u [] ts = 0"
  by (simp add: affected_loop_def)

lemma affected_rows_Nil [simp]: "affected_rows u [] ts = 0"
  by (simp add: affected_rows_def requested_def row_count_def)

section \<open>Bulk operations are all-or-nothing\<close>

lemma bulk_update_loop_count:
  "bulk_update_loop now u c ids ts n = Inr (ts', m) \<Longrightarrow> m = n + affected_loop u ids ts"
proof (induction ids arbitrary: ts n)
  case Nil
  then show ?case by (simp add: affected_loop_def)
next
  case (Cons i ids)
  let ?P = "\<lambda>t. todo_id t = i \<and> todo_user_id t = u"
  let ?g = "\<lambda>t. if ?P t then fired now (\<lambda>t. t\<lparr>is_complete := c\<rparr>) t else t"
  from Cons.prems have nov: "\<not> overflows ?P ts"
    by (auto simp: update_todos_closed split: if_splits)
  with Cons.prems have run:
    "bulk_update_loop now u c ids (map ?g ts) (n + row_count (filter ?P ts)) = Inr (ts', m)"
    by (simp add: update_todos_closed row_count_def)
  have "length (filter (owned_by u j) (map ?g ts)) = length (filter (owned_by u j) ts)" for j
    by (rule filter_key_map) (simp add: owned_by_def fired_def)
  then have same: "affected_loop u ids (map ?g ts) = affected_loop u ids ts"
    unfolding affected_loop_def row_count_def by simp
  from Cons.IH[OF run] same show ?case
    by (simp add: affected_loop_def owned_by_def[abs_def])
qed

lemma bulk_update_todos_rejects:
  assumes "affected_loop u ids (todos s) \<noteq> int (length ids)"
  shows "\<exists>e. bulk_update_todos now u ids c s = ((False, 0, Some e), s)"
proof (cases "bulk_update_loop now u c ids (todos s) 0")
  case (Inl e)
  then show ?thesis
    by (simp add: bulk_update_todos_def bulk_update_todos_body_def catch_others_def)
next
  case (Inr r)
  obtain ts' m where r: "r = (ts', m)" by (cases r)
  from Inr r have m: "m = affected_loop u ids (todos s)"
    using bulk_update_loop_count by fastforce
  from assms have ne: "ids \<noteq> []" by auto
  show ?thesis using Inr r m mismatch_true[OF assms ne]
    by (simp add: bulk_update_todos_def bulk_update_todos_body_def catch_others_def)
qed

lemma bulk_change_category_rejects:
  assumes "affected_rows u ids (todos s) \<noteq> int (length ids)"
  shows "\<exists>e. bulk_change_category now u ids cat s = ((False, 0, Some e), s)"
proof -
  from assms have ne: "ids \<noteq> []" by auto
  show ?thesis using mismatch_true[OF assms ne]
    unfolding affected_rows_def requested_def[abs_def]
    by (simp add: bulk_change_category_def bulk_change_category_body_def
        catch_others_def update_todos_closed)
qed

lemma bulk_delete_todos_rejects:
  assumes "affected_rows u ids (todos s) \<noteq> int (length ids)"
  shows "\<exists>e. bulk_delete_todos u ids s = ((False, 0, Some e), s)"
proof -
  from assms have ne: "ids \<noteq> []" by auto
  show ?thesis using mismatch_true[OF assms ne]
    unfolding affected_rows_def requested_def[abs_def]
    by (simp add: bulk_delete_todos_def bulk_delete_todos_body_def delete_todos_def
        catch_others_def)
qed

text \<open>
  Under the primary key of \<^verbatim>\<open>todos\<close>, an id that names no row of the caller keeps
  both counts below the number of requested ids.
\<close>

lemma pk_owned_le_1:
  "distinct (map todo_id ts) \<Longrightarrow> length (filter (owned_by u i) ts) \<le> 1"
proof (induction ts)
  case Nil
  then show ?case by simp
next
  case (Cons a ts)
  show ?case
  proof (cases "owned_by u i a")
    case True
    from Cons.prems have "todo_id a \<notin> todo_id ` set ts" by simp
    with True have "\<forall>t\<in>set ts. \<not> owned_by u i t"
      unfolding owned_by_def by (metis imageI)
    then have "filter (owned_by u i) ts = []" by (simp add: filter_empty_conv)
    with True show ?thesis by simp
  next
    case False
    with Cons show ?thesis by simp
  qed
qed

lemma pk_affected_loop_less:
  assumes pk: "distinct (map todo_id ts)"
    and bad: "\<exists>i\<in>set ids. \<not> list_ex (owned_by u i) ts"
  shows "affected_loop u ids ts < int (length ids)"
  using bad
proof (induction ids)
  case Nil
  then show ?case by simp
next
  case (Cons j ids)
  have le1: "row_count (filter (owned_by u k) ts) \<le> 1" for k
    using pk_owned_le_1[OF pk, of u k] by (simp add: row_count_def)
  have all_le: "affected_loop u ks ts \<le> int (length ks)" for ks
  proof (induction ks)
    case Nil
    then show ?case by simp
  next
    case (Cons k ks)
    with le1[of k] show ?case by (simp add: affected_loop_def)
  qed
  show ?case
  proof (cases "list_ex (owned_by u j) ts")
    case True
    with Cons.prems have "\<exists>i\<in>set ids. \<not> list_ex (owned_by u i) ts" by auto
    from Cons.IH[OF this] le1[of j] show ?thesis by (simp add: affected_loop_def)
  next
    case False
    then have "filter (owned_by u j) ts = []"
      by (simp add: filter_empty_conv list_ex_iff)
    with all_le[of ids] show ?thesis by (simp add: affected_loop_def row_count_def)
  qed
qed

lemma pk_affected_rows_less:
  assumes pk: "distinct (map todo_id ts)"
    and bad: "\<exists>i\<in>set ids. \<not> list_ex (owned_by u i) ts"
  shows "affected_rows u ids ts < int (length ids)"
proof -
  from bad obtain b where b: "b \<in> set ids" "\<not> list_ex (owned_by u b) ts" by blast
  let ?rs = "filter (requested u ids) ts"
  have d: "distinct (map todo_id ?rs)" using pk by (simp add: distinct_map_filter)
  have sub: "set (map todo_id ?rs) \<subseteq> set ids - {b}"
    using b by (auto simp: requested_def owned_by_def list_ex_iff)
  have "length ?rs = card (set (map todo_id ?rs))"
    using d by (metis distinct_card length_map)
  also have "\<dots> \<le> card (set ids - {b})"
    using sub by (intro card_mono) auto
  also have "\<dots> < card (set ids)"
    using b by (intro psubset_card_mono) auto
  also have "\<dots> \<le> length ids" by (rule card_length)
  finally show ?thesis by (simp add: affected_rows_def row_count_def)
qed

lemma match_count:
  "\<not> is_true (sql_ne n (array_length ids)) \<Longrightarrow> ids \<noteq> [] \<Longrightarrow> n = int (length ids)"
  by (simp add: is_true_def sql_ne_def array_length_def)

lemma bulk_update_todos_outcome:
  "(\<exists>s'. bulk_update_todos now u ids c s = ((True, int (length ids), None), s'))
   \<or> (\<exists>e. bulk_update_todos now u ids c s = ((False, 0, Some e), s))"
proof (cases "bulk_update_loop now u c ids (todos s) 0")
  case (Inl e)
  then show ?thesis
    by (simp add: bulk_update_todos_def bulk_update_todos_body_def catch_others_def)
next
  case (Inr r)
  obtain ts' m where r: "r = (ts', m)" by (cases r)
  from Inr r have m: "m = affected_loop u ids (todos s)"
    using bulk_update_loop_count by fastforce
  show ?thesis
  proof (cases "is_true (sql_ne m (array_length ids))")
    case True
    with Inr r show ?thesis
      by (simp add: bulk_update_todos_def bulk_update_todos_body_def catch_others_def)
  next
    case False
    have "m = int (length ids)"
    proof (cases "ids = []")
      case True
      with m show ?thesis by simp
    next
      case ne: False
      from match_count[OF False ne] show ?thesis .
    qed
    with False Inr r show ?thesis
      by (simp add: bulk_update_todos_def bulk_update_todos_body_def catch_others_def)
  qed
qed

lemma bulk_change_category_outcome:
  "(\<exists>s'. bulk_change_category now u ids cat s = ((True, int (length ids), None), s'))
   \<or> (\<exists>e. bulk_change_category now u ids cat s = ((False, 0, Some e), s))"
proof (cases "affected_rows u ids (todos s) = int (length ids)")
  case False
  then show ?thesis using bulk_change_category_rejects by blast
next
  case True
  then have n: "\<not> is_true (sql_ne (row_count (filter (\<lambda>t. todo_id t \<in> set ids \<and> todo_user_id t = u) (todos s)))
      (array_length ids))"
    by (simp add: affected_rows_def requested_def[abs_def] is_true_def sql_ne_def array_length_def)
  from True have e: "row_count (filter (\<lambda>t. todo_id t \<in> set ids \<and> todo_user_id t = u) (todos s))
     = int (length ids)"
    by (simp add: affected_rows_def requested_def[abs_def])
  show ?thesis
    using n e
    by (simp add: bulk_change_category_def bulk_change_category_body_def
        catch_others_def update_todos_closed)
qed

lemma bulk_delete_todos_outcome:
  "(\<exists>s'. bulk_delete_todos u ids s = ((True, int (length ids), None), s'))
   \<or> (\<exists>e. bulk_delete_todos u ids s = ((False, 0, Some e), s))"
proof (cases "affected_rows u ids (todos s) = int (length ids)")
  case False
  then show ?thesis using bulk_delete_todos_rejects by blast
next
  case True
  then have n: "\<not> is_true (sql_ne (row_count (filter (\<lambda>t. todo_id t \<in> set ids \<and> todo_user_id t = u) (todos s)))
      (array_length ids))"
    by (simp add: affected_rows_def requested_def[abs_def] is_true_def sql_ne_def array_length_def)
  from True have e: "row_count (filter (\<lambda>t. todo_id t \<in> set ids \<and> todo_user_id t = u) (todos s))
     = int (length ids)"
    by (simp add: affected_rows_def requested_def[abs_def])
  show ?thesis
    using n e
    by (simp add: bulk_delete_todos_def bulk_delete_todos_body_def delete_todos_def
        catch_others_def)
qed

text \<open>
  C1. Each bulk operation is all-or-nothing: \<^const>\<open>bulk_update_todos\<close>,
  \<^const>\<open>bulk_change_category\<close> and \<^const>\<open>bulk_delete_todos\<close> either succeed with a
  count equal to the number of requested ids, or return \<open>(false, 0, message)\<close> and
  leave the database as it was before the call. They do the latter whenever the number
  of rows their statements report as affected (\<^verbatim>\<open>ROW_COUNT\<close>, summed over the loop in
  \<^const>\<open>bulk_update_todos\<close>) differs from the number of requested ids. Under the
  primary key of \<^verbatim>\<open>todos\<close> this is the case as soon as one requested id names no row
  of the caller (it does not exist, or belongs to another user): with \<open>[A, B, C]\<close> and
  \<open>B\<close> another user's, nothing is deleted.
\<close>

theorem bulk_all_or_nothing:
  "((\<exists>s'. bulk_update_todos now u ids c s = ((True, int (length ids), None), s'))
      \<or> (\<exists>e. bulk_update_todos now u ids c s = ((False, 0, Some e), s)))
   \<and> ((\<exists>s'. bulk_change_category now u ids cat s = ((True, int (length ids), None), s'))
      \<or> (\<exists>e. bulk_change_category now u ids cat s = ((False, 0, Some e), s)))
   \<and> ((\<exists>s'. bulk_delete_todos u ids s = ((True, int (length ids), None), s'))
      \<or> (\<exists>e. bulk_delete_todos u ids s = ((False, 0, Some e), s)))
   \<and> (affected_loop u ids (todos s) \<noteq> int (length ids) \<longrightarrow>
      (\<exists>e. bulk_update_todos now u ids c s = ((False, 0, Some e), s)))
   \<and> (affected_rows u ids (todos s) \<noteq> int (length ids) \<longrightarrow>
      (\<exists>e. bulk_change_category now u ids cat s = ((False, 0, Some e), s))
      \<and> (\<exists>e. bulk_delete_todos u ids s = ((False, 0, Some e), s)))
   \<and> (distinct (map todo_id (todos s)) \<and> (\<exists>i\<in>set ids. \<not> list_ex (owned_by u i) (todos s)) \<longrightarrow>
      (\<exists>e. bulk_update_todos now u ids c s = ((False, 0, Some e), s))
      \<and> (\<exists>e. bulk_change_category now u ids cat s = ((False, 0, Some e), s))
      \<and> (\<exists>e. bulk_delete_todos u ids s = ((False, 0, Some e), s)))"
proof (intro conjI impI)
  show "(\<exists>s'. bulk_update_todos now u ids c s = ((True, int (length ids), None), s'))
      \<or> (\<exists>e. bulk_update_todos now u ids c s = ((False, 0, Some e), s))"
    by (rule bulk_update_todos_outcome)
next
  show "(\<exists>s'. bulk_change_category now u ids cat s = ((True, int (length ids), None), s'))
      \<or> (\<exists>e. bulk_change_category now u ids cat s = ((False, 0, Some e), s))"
    by (rule bulk_change_category_outcome)
next
  show "(\<exists>s'. bulk_delete_todos u ids s = ((True, int (length ids), None), s'))
      \<or> (\<exists>e. bulk_delete_todos u ids s = ((False, 0, Some e), s))"
    by (rule bulk_delete_todos_outcome)
next
  assume "affected_loop u ids (todos s) \<noteq> int (length ids)"
  then show "\<exists>e. bulk_update_todos now u ids c s = ((False, 0, Some e), s)"
    by (rule bulk_update_todos_rejects)
next
  assume "affected_rows u ids (todos s) \<noteq> int (length ids)"
  then show "\<exists>e. bulk_change_category now u ids cat s = ((False, 0, Some e), s)"
    by (rule bulk_change_category_rejects)
next
  assume "affected_rows u ids (todos s) \<noteq> int (length ids)"
  then show "\<exists>e. bulk_delete_todos u ids s = ((False, 0, Some e), s)"
    by (rule bulk_delete_todos_rejects)
next
  assume "distinct (map todo_id (todos s)) \<and> (\<exists>i\<in>set ids. \<not> list_ex (owned_by u i) (todos s))"
  then have "affected_loop u ids (todos s) \<noteq> int (length ids)"
    using pk_affected_loop_less[of "todos s" ids u] by simp
  then show "\<exists>e. bulk_update_todos now u ids c s = ((False, 0, Some e), s)"
    by (rule bulk_update_todos_rejects)
next
  assume "distinct (map todo_id (todos s)) \<and> (\<exists>i\<in>set ids. \<not> list_ex (owned_by u i) (todos s))"
  then have "affected_rows u ids (todos s) \<noteq> int (length ids)"
    using pk_affected_rows_less[of "todos s" ids u] by simp
  then show "\<exists>e. bulk_change_category now u ids cat s = ((False, 0, Some e), s)"
    by (rule bulk_change_category_rejects)
next
  assume "distinct (map todo_id (todos s)) \<and> (\<exists>i\<in>set ids. \<not> list_ex (owned_by u i) (todos s))"
  then have "affected_rows u ids (todos s) \<noteq> int (length ids)"
    using pk_affected_rows_less[of "todos s" ids u] by simp
  then show "\<exists>e. bulk_delete_todos u ids s = ((False, 0, Some e), s)"
    by (rule bulk_delete_todos_rejects)
qed

theorem bulk_all_or_nothing_witness:
  "distinct (map todo_id (todos ex_db))
   \<and> (\<exists>i\<in>set [1, 2, 3]. \<not> list_ex (owned_by 10 i) (todos ex_db))
   \<and> affected_loop 10 [1, 2, 3] (todos ex_db) \<noteq> int (length [1, 2, 3 :: uuid])
   \<and> affected_rows 10 [1, 2, 3] (todos ex_db) \<noteq> int (length [1, 2, 3 :: uuid])
   \<and> (\<exists>e. bulk_update_todos 0 10 [1, 2, 3] True ex_db = ((False, 0, Some e), ex_db))
   \<and> (\<exists>e. bulk_change_category 0 10 [1, 2, 3] None ex_db = ((False, 0, Some e), ex_db))
   \<and> (\<exists>e. bulk_delete_todos 10 [1, 2, 3] ex_db = ((False, 0, Some e), ex_db))
   \<and> map todo_id (todos (snd (bulk_delete_todos 10 [1, 2, 3] ex_db))) = [1, 2, 3]"
proof -
  have pk: "distinct (map todo_id (todos ex_db))"
    by (simp add: ex_db_def ex_todo_def)
  have bad: "\<exists>i\<in>set [1, 2, 3]. \<not> list_ex (owned_by 10 i) (todos ex_db)"
    by (simp add: ex_db_def ex_todo_def owned_by_def)
  have n1: "affected_loop 10 [1, 2, 3] (todos ex_db) \<noteq> int (length [1, 2, 3 :: uuid])"
    by (simp add: affected_loop_def row_count_def ex_db_def ex_todo_def owned_by_def)
  have n2: "affected_rows 10 [1, 2, 3] (todos ex_db) \<noteq> int (length [1, 2, 3 :: uuid])"
    by (simp add: affected_rows_def row_count_def ex_db_def ex_todo_def requested_def)
  from bulk_all_or_nothing[where u = 10 and ids = "[1, 2, 3]" and s = ex_db and now = 0
      and c = True and cat = None] pk bad
  have r: "(\<exists>e. bulk_update_todos 0 10 [1, 2, 3] True ex_db = ((False, 0, Some e), ex_db))
   \<and> (\<exists>e. bulk_change_category 0 10 [1, 2, 3] None ex_db = ((False, 0, Some e), ex_db))
   \<and> (\<exists>e. bulk_delete_todos 10 [1, 2, 3] ex_db = ((False, 0, Some e), ex_db))"
    by blast
  then obtain e where "bulk_delete_todos 10 [1, 2, 3] ex_db = ((False, 0, Some e), ex_db)"
    by blast
  then have "map todo_id (todos (snd (bulk_delete_todos 10 [1, 2, 3] ex_db))) = [1, 2, 3]"
    by (simp add: ex_db_def ex_todo_def)
  with pk bad n1 n2 r show ?thesis by blast
qed

section \<open>Bulk operations on an empty array\<close>

lemma db_todos_same: "s\<lparr>todos := todos s\<rparr> = s"
  by simp

lemma bulk_update_todos_empty: "bulk_update_todos now u [] c s = ((True, 0, None), s)"
  by (simp add: bulk_update_todos_def bulk_update_todos_body_def catch_others_def
      array_length_def sql_ne_def is_true_def)

lemma bulk_delete_todos_empty: "bulk_delete_todos u [] s = ((True, 0, None), s)"
  by (simp add: bulk_delete_todos_def bulk_delete_todos_body_def catch_others_def
      array_length_def sql_ne_def is_true_def delete_todos_def row_count_def)

lemma bulk_change_category_empty_null:
  "bulk_change_category now u [] None s = ((True, 0, None), s)"
  by (simp add: bulk_change_category_def bulk_change_category_body_def catch_others_def
      array_length_def sql_ne_def is_true_def update_todos_none row_count_def)

lemma bulk_change_category_empty_valid:
  "category_exists k u (categories s) \<Longrightarrow>
   bulk_change_category now u [] (Some k) s = ((True, 0, None), s)"
  by (simp add: bulk_change_category_def bulk_change_category_body_def catch_others_def
      array_length_def sql_ne_def is_true_def update_todos_none row_count_def)

lemma bulk_change_category_invalid:
  "\<not> category_exists k u (categories s) \<Longrightarrow>
   bulk_change_category now u ids (Some k) s = ((False, 0, Some CategoryNotExists), s)"
  by (simp add: bulk_change_category_def bulk_change_category_body_def catch_others_def)

text \<open>
  C10, as the code has it. On an empty array the count check never fires
  (\<^verbatim>\<open>array_length\<close> is \<^verbatim>\<open>NULL\<close>), so \<^const>\<open>bulk_update_todos\<close> and
  \<^const>\<open>bulk_delete_todos\<close> return \<open>(true, 0, NULL)\<close> and change nothing, and so does
  \<^const>\<open>bulk_change_category\<close> when the target category is \<^verbatim>\<open>NULL\<close> or is a category
  of the caller. A target category that does not exist or is not the caller's is rejected
  before the count check, on an empty array too: \<open>(false, 0, message)\<close>, nothing changed.
\<close>

theorem bulk_empty_array:
  "\<not> is_true (sql_ne n (array_length ([] :: uuid list)))
   \<and> bulk_update_todos now u [] c s = ((True, 0, None), s)
   \<and> bulk_delete_todos u [] s = ((True, 0, None), s)
   \<and> bulk_change_category now u [] None s = ((True, 0, None), s)
   \<and> (category_exists k u (categories s) \<longrightarrow>
        bulk_change_category now u [] (Some k) s = ((True, 0, None), s))
   \<and> (\<not> category_exists k u (categories s) \<longrightarrow>
        bulk_change_category now u [] (Some k) s = ((False, 0, Some CategoryNotExists), s))"
  using bulk_update_todos_empty[of now u c s] bulk_delete_todos_empty[of u s]
    bulk_change_category_empty_null[of now u s]
    bulk_change_category_empty_valid[of k u s now]
    bulk_change_category_invalid[of k u s now "[]"]
  by (simp add: is_true_def sql_ne_def array_length_def)

theorem bulk_empty_array_witness:
  "category_exists 5 10 (categories ex_db)
   \<and> bulk_change_category 0 10 [] (Some 5) ex_db = ((True, 0, None), ex_db)
   \<and> \<not> category_exists 6 10 (categories ex_db)
   \<and> bulk_change_category 0 10 [] (Some 6) ex_db = ((False, 0, Some CategoryNotExists), ex_db)"
proof -
  have a: "category_exists 5 10 (categories ex_db)"
    by (simp add: category_exists_def ex_db_def)
  have b: "\<not> category_exists 6 10 (categories ex_db)"
    by (simp add: category_exists_def ex_db_def)
  from a b bulk_empty_array[of 0 0 10 True ex_db 5] bulk_empty_array[of 0 0 10 True ex_db 6]
  show ?thesis by simp
qed

text \<open>
  C10 as stated fails for \<^const>\<open>bulk_change_category\<close>: an empty array with a category
  that is not the caller's returns \<open>success = false\<close>.
\<close>

theorem bulk_empty_array_counterexample:
  "bulk_change_category 0 10 [] (Some 6) ex_db \<noteq> ((True, 0, None), ex_db)"
  by (simp add: bulk_change_category_def bulk_change_category_body_def catch_others_def
      category_exists_def ex_db_def)

section \<open>Optimistic locking\<close>

lemma no_match_result:
  assumes "\<not> list_ex (locked u i v) (todos s)"
  shows "update_todo_with_version now u i ttl c cat v s =
     ((False, Some 0, Some (if list_ex (owned_by u i) (todos s) then VersionConflict else TodoNotFound)), s)"
proof -
  let ?P = "\<lambda>t. todo_id t = i \<and> todo_user_id t = u \<and> version t = v"
  from assms have none: "\<forall>t\<in>set (todos s). \<not> ?P t"
    by (auto simp: list_ex_iff locked_def)
  then have upd: "update_todos now ?P f (todos s) = Inr (todos s, [])" for f
    by (rule update_todos_none)
  from none have fk: "\<not> fk_violation (categories s) ?P cat (todos s)"
    by (auto simp: fk_violation_def list_ex_iff split: option.splits)
  show ?thesis
    using fk
    by (simp add: update_todo_with_version_def update_todo_with_version_body_def upd
        row_count_def owned_by_def[abs_def])
qed

lemma match_result:
  assumes hit: "list_ex (locked u i v) (todos s)"
    and small: "v < INT_MAX"
    and known: "category_known cat (categories s)"
  shows "update_todo_with_version now u i ttl c cat v s =
     ((True, Some (v + 1), None),
      s\<lparr>todos := map (\<lambda>t. if locked u i v t then edited now ttl c cat t else t) (todos s)\<rparr>)"
proof -
  let ?P = "\<lambda>t. todo_id t = i \<and> todo_user_id t = u \<and> version t = v"
  let ?f = "\<lambda>t. t\<lparr>title := ttl, is_complete := c, category_id := cat\<rparr>"
  have nov: "\<not> overflows ?P (todos s)"
    using small by (auto simp: overflows_def list_ex_iff)
  have fk: "\<not> fk_violation (categories s) ?P cat (todos s)"
    using known by (auto simp: fk_violation_def category_known_def split: option.splits)
  from hit obtain r rs where rs: "filter ?P (todos s) = r # rs"
    by (cases "filter ?P (todos s)") (auto simp: list_ex_iff locked_def filter_empty_conv)
  then have "r \<in> set (filter ?P (todos s))" by simp
  then have r: "version r = v" by simp
  have m: "map (\<lambda>t. if ?P t then fired now ?f t else t) (todos s) =
        map (\<lambda>t. if locked u i v t then edited now ttl c cat t else t) (todos s)"
    by (rule map_cong) (auto simp: fired_def locked_def edited_def)
  show ?thesis
    using nov fk rs r
    by (simp add: update_todo_with_version_def update_todo_with_version_body_def
        update_todos_closed row_count_def m fired_def)
qed

lemma stale_after_update:
  "\<not> list_ex (locked u i v)
       (map (\<lambda>t. if locked u i v t then edited now ttl c cat t else t) ts)"
  by (induction ts) (simp_all add: locked_def edited_def)

lemma owned_after_update:
  assumes hit: "list_ex (locked u i v) ts"
  shows "list_ex (owned_by u i)
       (map (\<lambda>t. if locked u i v t then edited now ttl c cat t else t) ts)"
  using hit by (induction ts) (auto simp: owned_by_def locked_def edited_def)

text \<open>
  C2, as the code has it. For a todo of user \<open>u\<close> at version \<open>v\<close> below the largest
  \<^verbatim>\<open>INTEGER\<close>, and a category argument that is \<^verbatim>\<open>NULL\<close> or names an existing
  category, \<^const>\<open>update_todo_with_version\<close> with \<open>expected_version = v\<close> succeeds,
  returns \<open>v + 1\<close>, which is the version it stored, and a second call with the same
  \<open>expected_version\<close> fails with the version conflict and changes nothing.
\<close>

theorem optimistic_lock:
  assumes hit: "list_ex (locked u i v) (todos s)"
    and small: "v < INT_MAX"
    and known: "category_known cat (categories s)"
  shows "fst (update_todo_with_version now u i ttl c cat v s) = (True, Some (v + 1), None)
     \<and> snd (update_todo_with_version now u i ttl c cat v s) =
         s\<lparr>todos := map (\<lambda>t. if locked u i v t then edited now ttl c cat t else t) (todos s)\<rparr>
     \<and> update_todo_with_version now2 u i ttl2 c2 cat2 v
          (snd (update_todo_with_version now u i ttl c cat v s)) =
         ((False, Some 0, Some VersionConflict),
          snd (update_todo_with_version now u i ttl c cat v s))"
proof -
  let ?ts' = "map (\<lambda>t. if locked u i v t then edited now ttl c cat t else t) (todos s)"
  let ?s' = "s\<lparr>todos := ?ts'\<rparr>"
  have first: "update_todo_with_version now u i ttl c cat v s = ((True, Some (v + 1), None), ?s')"
    by (rule match_result[OF hit small known])
  have stale: "\<not> list_ex (locked u i v) (todos ?s')"
    using stale_after_update by simp
  have own: "list_ex (owned_by u i) (todos ?s')"
    using owned_after_update[OF hit] by simp
  have second: "update_todo_with_version now2 u i ttl2 c2 cat2 v ?s' =
      ((False, Some 0, Some VersionConflict), ?s')"
    using no_match_result[OF stale] own by simp
  show ?thesis using first second by simp
qed

theorem optimistic_lock_witness:
  "list_ex (locked 10 1 1) (todos ex_db) \<and> (1::int) < INT_MAX
   \<and> category_known (Some 5) (categories ex_db)
   \<and> fst (update_todo_with_version 7 10 1 (ascii ''A2'') True (Some 5) 1 ex_db) = (True, Some 2, None)
   \<and> map version (todos (snd (update_todo_with_version 7 10 1 (ascii ''A2'') True (Some 5) 1 ex_db)))
       = [2, 1, 1]
   \<and> update_todo_with_version 8 10 1 (ascii ''A3'') False None 1
          (snd (update_todo_with_version 7 10 1 (ascii ''A2'') True (Some 5) 1 ex_db))
       = ((False, Some 0, Some VersionConflict),
          snd (update_todo_with_version 7 10 1 (ascii ''A2'') True (Some 5) 1 ex_db))"
proof -
  have a: "list_ex (locked 10 1 1) (todos ex_db)"
    by (simp add: ex_db_def ex_todo_def locked_def)
  have b: "(1::int) < INT_MAX" by (simp add: INT_MAX_def)
  have c: "category_known (Some 5) (categories ex_db)"
    by (simp add: category_known_def ex_db_def)
  note r = optimistic_lock[OF a b c, of 7 "ascii ''A2''" True 8 "ascii ''A3''" False None]
  from r have d: "map version (todos (snd (update_todo_with_version 7 10 1 (ascii ''A2'') True (Some 5) 1 ex_db)))
       = [2, 1, 1]"
    by (simp add: ex_db_def ex_todo_def locked_def edited_def)
  from r[THEN conjunct1]
  have e: "fst (update_todo_with_version 7 10 1 (ascii ''A2'') True (Some 5) 1 ex_db) = (True, Some 2, None)"
    by simp
  note f = r[THEN conjunct2, THEN conjunct2]
  from a b c d e f show ?thesis by blast
qed

text \<open>
  C2 as stated fails: at version 2147483647 the trigger's \<^verbatim>\<open>OLD.version + 1\<close> raises,
  and a category id that names no category violates the foreign key; both calls carry
  the current version and return \<open>success = false\<close>.
\<close>

theorem optimistic_lock_counterexample:
  "fst (update_todo_with_version 7 10 1 (ascii ''x'') True None 2147483647 big_db)
     = (False, Some 0, Some IntegerOutOfRange)
   \<and> fst (update_todo_with_version 7 10 2 (ascii ''x'') True (Some 9) 1 big_db)
     = (False, Some 0, Some ForeignKeyViolation)"
  by (simp add: update_todo_with_version_def update_todo_with_version_body_def
      increment_version_def INT_MAX_def fk_violation_def big_db_def ex_todo_def row_count_def)

text \<open>
  C4. When the conditional \<^verbatim>\<open>UPDATE\<close> of \<^const>\<open>update_todo_with_version\<close> selects
  no row, the failure names its cause from a second look at the table by id and owner:
  \<^const>\<open>TodoNotFound\<close> when the caller owns no todo with that id, \<^const>\<open>VersionConflict\<close>
  when the row is there with another version. Nothing is changed.
\<close>

theorem update_zero_rows:
  assumes "\<not> list_ex (locked u i v) (todos s)"
  shows "update_todo_with_version now u i ttl c cat v s =
     ((False, Some 0,
       Some (if list_ex (owned_by u i) (todos s) then VersionConflict else TodoNotFound)), s)"
  using assms by (rule no_match_result)

theorem update_zero_rows_witness:
  "\<not> list_ex (locked 10 1 4) (todos ex_db)
  \<and> update_todo_with_version 7 10 1 (ascii ''x'') True None 4 ex_db = ((False, Some 0, Some VersionConflict), ex_db)
  \<and> \<not> list_ex (locked 10 2 1) (todos ex_db)
  \<and> update_todo_with_version 7 10 2 (ascii ''x'') True None 1 ex_db = ((False, Some 0, Some TodoNotFound), ex_db)"
proof -
  have a: "\<not> list_ex (locked 10 1 4) (todos ex_db)"
    by (simp add: ex_db_def ex_todo_def locked_def)
  have b: "\<not> list_ex (locked 10 2 1) (todos ex_db)"
    by (simp add: ex_db_def ex_todo_def locked_def)
  have c: "list_ex (owned_by 10 1) (todos ex_db)" "\<not> list_ex (owned_by 10 2) (todos ex_db)"
    by (simp_all add: ex_db_def ex_todo_def owned_by_def)
  from update_zero_rows[OF a, of 7 "ascii ''x''" True None] update_zero_rows[OF b, of 7 "ascii ''x''" True None] a b c
  show ?thesis by simp
qed

section \<open>Versions\<close>

lemma increment_version_sets:
  "increment_version now old new = Inr r \<Longrightarrow>
     version r = version old + 1 \<and> updated_at r = now"
  by (auto simp: increment_version_def split: if_splits)

lemma update_todos_rows:
  assumes "update_todos now P f ts = Inr (ts', rs)"
  shows "length ts' = length ts
     \<and> (\<forall>k<length ts.
          if P (ts ! k)
          then version (ts' ! k) = version (ts ! k) + 1 \<and> updated_at (ts' ! k) = now
          else ts' ! k = ts ! k)"
  using assms by (auto simp: update_todos_closed fired_def split: if_splits)

lemma run_updates_hits:
  "run_updates stmts ts = Inr ts' \<Longrightarrow>
     length ts' = length ts
     \<and> (\<forall>k<length ts. version (ts' ! k) = version (ts ! k) + int (hits stmts ts k))"
proof (induction stmts ts arbitrary: ts' rule: run_updates.induct)
  case (1 ts)
  then show ?case by simp
next
  case (2 now P f stmts ts)
  from "2.prems" obtain ts1 rs where u: "update_todos now P f ts = Inr (ts1, rs)"
    by (auto split: sum.splits)
  with "2.prems" have run: "run_updates stmts ts1 = Inr ts'" by simp
  from "2.IH"[OF u refl run] have ih: "length ts' = length ts1"
    "\<forall>k<length ts1. version (ts' ! k) = version (ts1 ! k) + int (hits stmts ts1 k)"
    by simp_all
  from update_todos_rows[OF u] have st: "length ts1 = length ts"
    "\<forall>k<length ts. if P (ts ! k)
          then version (ts1 ! k) = version (ts ! k) + 1 \<and> updated_at (ts1 ! k) = now
          else ts1 ! k = ts ! k"
    by simp_all
  show ?case
  proof (intro conjI allI impI)
    show "length ts' = length ts" using ih st by simp
  next
    fix k assume k: "k < length ts"
    with st have "version (ts1 ! k) = version (ts ! k) + (if P (ts ! k) then 1 else 0)"
      by (auto split: if_splits)
    moreover from k st ih have "version (ts' ! k) = version (ts1 ! k) + int (hits stmts ts1 k)"
      by simp
    ultimately show "version (ts' ! k) = version (ts ! k) + int (hits ((now, P, f) # stmts) ts k)"
      using u by simp
  qed
qed

text \<open>
  C3. Whatever an \<^verbatim>\<open>UPDATE\<close> writes into a todo row, also into its version, the
  trigger stores the old version plus one and the time of the update; the rows a
  statement does not select stay as they are. Along any sequence of statements that
  did not raise, the version of a row grows by exactly the number of statements that
  selected it: by one each time, never more and never less.
\<close>

theorem version_increments:
  "(increment_version now old new = Inr r \<longrightarrow>
      version r = version old + 1 \<and> updated_at r = now)
   \<and> (update_todos now P f ts = Inr (ts', rs) \<longrightarrow>
        length ts' = length ts
        \<and> (\<forall>k<length ts.
             if P (ts ! k)
             then version (ts' ! k) = version (ts ! k) + 1 \<and> updated_at (ts' ! k) = now
             else ts' ! k = ts ! k))
   \<and> (run_updates stmts ts = Inr ts'' \<longrightarrow>
        length ts'' = length ts
        \<and> (\<forall>k<length ts. version (ts'' ! k) = version (ts ! k) + int (hits stmts ts k)))"
  using increment_version_sets[of now old new r] update_todos_rows[of now P f ts ts' rs]
    run_updates_hits[of stmts ts ts'']
  by blast

lemma ex_first: "update_todos 7 (owned_by 10 1) (\<lambda>t. t\<lparr>version := 100\<rparr>) (todos ex_db)
    = Inr (ex_step1, [(ex_todo 1 10 ''A'')\<lparr>version := 2, updated_at := 7\<rparr>])"
  by (simp add: ex_step1_def ex_db_def ex_todo_def owned_by_def increment_version_def INT_MAX_def)

lemma ex_run: "run_updates ex_stmts (todos ex_db) = Inr ex_step2"
  by (simp add: ex_step2_def ex_stmts_def ex_db_def ex_todo_def owned_by_def
      increment_version_def INT_MAX_def)

lemma ex_hits: "hits ex_stmts (todos ex_db) 0 = 2 \<and> hits ex_stmts (todos ex_db) 1 = 1"
  by (simp add: ex_stmts_def ex_db_def ex_todo_def owned_by_def increment_version_def INT_MAX_def)

theorem version_increments_witness:
  "increment_version 7 (ex_todo 1 10 ''A'') ((ex_todo 1 10 ''A'')\<lparr>version := 100\<rparr>)
     = Inr ((ex_todo 1 10 ''A'')\<lparr>version := 2, updated_at := 7\<rparr>)
   \<and> version ((ex_todo 1 10 ''A'')\<lparr>version := 2, updated_at := 7\<rparr>)
       = version (ex_todo 1 10 ''A'') + 1
   \<and> update_todos 7 (owned_by 10 1) (\<lambda>t. t\<lparr>version := 100\<rparr>) (todos ex_db)
       = Inr (ex_step1, [(ex_todo 1 10 ''A'')\<lparr>version := 2, updated_at := 7\<rparr>])
   \<and> owned_by 10 1 (todos ex_db ! 0)
   \<and> version (ex_step1 ! 0) = version (todos ex_db ! 0) + 1
   \<and> updated_at (ex_step1 ! 0) = 7
   \<and> \<not> owned_by 10 1 (todos ex_db ! 1)
   \<and> ex_step1 ! 1 = todos ex_db ! 1
   \<and> run_updates ex_stmts (todos ex_db) = Inr ex_step2
   \<and> hits ex_stmts (todos ex_db) 0 = 2
   \<and> version (ex_step2 ! 0) = version (todos ex_db ! 0) + int (hits ex_stmts (todos ex_db) 0)
   \<and> hits ex_stmts (todos ex_db) 1 = 1
   \<and> version (ex_step2 ! 1) = version (todos ex_db ! 1) + int (hits ex_stmts (todos ex_db) 1)"
proof -
  have a: "increment_version 7 (ex_todo 1 10 ''A'') ((ex_todo 1 10 ''A'')\<lparr>version := 100\<rparr>)
     = Inr ((ex_todo 1 10 ''A'')\<lparr>version := 2, updated_at := 7\<rparr>)"
    by (simp add: increment_version_def ex_todo_def INT_MAX_def)
  have len: "0 < length (todos ex_db)" "1 < length (todos ex_db)" by (simp_all add: ex_db_def)
  have p: "owned_by 10 1 (todos ex_db ! 0)" "\<not> owned_by 10 1 (todos ex_db ! 1)"
    by (simp_all add: ex_db_def ex_todo_def owned_by_def)
  note t = version_increments[where now = 7 and old = "ex_todo 1 10 ''A''"
      and new = "(ex_todo 1 10 ''A'')\<lparr>version := 100\<rparr>"
      and r = "(ex_todo 1 10 ''A'')\<lparr>version := 2, updated_at := 7\<rparr>"
      and P = "owned_by 10 1" and f = "\<lambda>t. t\<lparr>version := 100\<rparr>"
      and ts' = ex_step1 and rs = "[(ex_todo 1 10 ''A'')\<lparr>version := 2, updated_at := 7\<rparr>]"
      and stmts = ex_stmts and ts = "todos ex_db" and ts'' = ex_step2]
  from t a have b: "version ((ex_todo 1 10 ''A'')\<lparr>version := 2, updated_at := 7\<rparr>)
       = version (ex_todo 1 10 ''A'') + 1"
    by blast
  from t ex_first have rows: "\<forall>k<length (todos ex_db).
             if owned_by 10 1 (todos ex_db ! k)
             then version (ex_step1 ! k) = version (todos ex_db ! k) + 1 \<and> updated_at (ex_step1 ! k) = 7
             else ex_step1 ! k = todos ex_db ! k"
    by blast
  from rows len(1) p(1) have c0: "version (ex_step1 ! 0) = version (todos ex_db ! 0) + 1"
    "updated_at (ex_step1 ! 0) = 7" by auto
  from rows len(2) p(2) have c1: "ex_step1 ! 1 = todos ex_db ! 1" by auto
  from t ex_run have seq: "\<forall>k<length (todos ex_db).
      version (ex_step2 ! k) = version (todos ex_db ! k) + int (hits ex_stmts (todos ex_db) k)"
    by blast
  from seq len have d: "version (ex_step2 ! 0) = version (todos ex_db ! 0) + int (hits ex_stmts (todos ex_db) 0)"
    "version (ex_step2 ! 1) = version (todos ex_db ! 1) + int (hits ex_stmts (todos ex_db) 1)"
    by auto
  from a b ex_first p c0 c1 ex_run ex_hits d show ?thesis by blast
qed

section \<open>The loop and the single statement\<close>

lemma overflows_split:
  "i \<notin> set ids \<Longrightarrow>
   overflows (requested u (i # ids)) ts =
     (overflows (owned_by u i) ts \<or> overflows (requested u ids) ts)"
  by (auto simp: overflows_def requested_def owned_by_def list_ex_iff)

lemma affected_split:
  "i \<notin> set ids \<Longrightarrow>
   length (filter (requested u (i # ids)) ts) =
     length (filter (owned_by u i) ts) + length (filter (requested u ids) ts)"
  by (induction ts) (auto simp: requested_def owned_by_def)

lemma bulk_update_loop_closed:
  assumes "distinct ids"
  shows "bulk_update_loop now u c ids ts n =
     (if overflows (requested u ids) ts then Inl IntegerOutOfRange
      else Inr (map (\<lambda>t. if requested u ids t then fired now (\<lambda>t. t\<lparr>is_complete := c\<rparr>) t else t) ts,
                n + affected_rows u ids ts))"
  using assms
proof (induction ids arbitrary: ts n)
  case Nil
  then show ?case
    by (simp add: overflows_def requested_def list_ex_iff)
next
  case (Cons i ids)
  let ?f = "\<lambda>t. t\<lparr>is_complete := c\<rparr>"
  let ?g = "\<lambda>t. if owned_by u i t then fired now ?f t else t"
  from Cons.prems have ni: "i \<notin> set ids" and d: "distinct ids" by simp_all
  have step: "update_todos now (\<lambda>t. todo_id t = i \<and> todo_user_id t = u) ?f ts =
      (if overflows (owned_by u i) ts then Inl IntegerOutOfRange
       else Inr (map ?g ts, map (fired now ?f) (filter (owned_by u i) ts)))"
    by (simp add: update_todos_closed owned_by_def[abs_def])
  have keep: "requested u ids (?g t) = requested u ids t" for t
    by (simp add: requested_def owned_by_def fired_def)
  have ov: "overflows (requested u ids) (map ?g ts) = overflows (requested u ids) ts"
    using ni by (induction ts) (auto simp: overflows_def requested_def owned_by_def fired_def)
  have cnt: "affected_rows u ids (map ?g ts) = affected_rows u ids ts"
    unfolding affected_rows_def row_count_def using filter_key_map[of "requested u ids" ?g ts] keep
    by simp
  have mp: "map (\<lambda>t. if requested u ids t then fired now ?f t else t) (map ?g ts) =
       map (\<lambda>t. if requested u (i # ids) t then fired now ?f t else t) ts"
    using ni by (auto simp: requested_def owned_by_def fired_def)
  have ih: "bulk_update_loop now u c ids (map ?g ts) m =
      (if overflows (requested u ids) ts then Inl IntegerOutOfRange
       else Inr (map (\<lambda>t. if requested u (i # ids) t then fired now ?f t else t) ts,
                 m + affected_rows u ids ts))" for m
    by (simp only: Cons.IH[OF d] ov cnt mp)
  have total: "affected_rows u (i # ids) ts =
      row_count (filter (owned_by u i) ts) + affected_rows u ids ts"
    using affected_split[OF ni, of u ts] by (simp add: affected_rows_def row_count_def)
  show ?case
  proof (cases "overflows (owned_by u i) ts")
    case True
    then show ?thesis by (simp add: step overflows_split[OF ni])
  next
    case False
    then show ?thesis
      by (simp add: step overflows_split[OF ni] ih total)
  qed
qed

text \<open>
  C5, as the code has it. For an id list without a repeated id,
  \<^const>\<open>bulk_update_todos\<close> (the loop) and \<^const>\<open>bulk_update_todos_efficient\<close> (the
  single statement) return the same row and leave the same database.
\<close>

theorem bulk_update_strategies_agree:
  assumes "distinct ids"
  shows "bulk_update_todos now u ids c s = bulk_update_todos_efficient now u ids c s"
  using bulk_update_loop_closed[OF assms, of now u c "todos s" 0]
  by (simp add: bulk_update_todos_def bulk_update_todos_body_def
      bulk_update_todos_efficient_def bulk_update_todos_efficient_body_def
      update_todos_closed affected_rows_def requested_def[abs_def])


theorem bulk_update_strategies_agree_witness:
  "distinct [1, 3 :: uuid]
   \<and> bulk_update_todos 7 10 [1, 3] True ex_db = bulk_update_todos_efficient 7 10 [1, 3] True ex_db
   \<and> fst (bulk_update_todos_efficient 7 10 [1, 3] True ex_db) = (True, 2, None)"
proof -
  have d: "distinct [1, 3 :: uuid]" by simp
  have r: "fst (bulk_update_todos_efficient 7 10 [1, 3] True ex_db) = (True, 2, None)"
    by (simp add: bulk_update_todos_efficient_def bulk_update_todos_efficient_body_def
        catch_others_def ex_db_def ex_todo_def increment_version_def INT_MAX_def
        row_count_def array_length_def sql_ne_def is_true_def)
  from d bulk_update_strategies_agree[OF d, of 7 10 True ex_db] r show ?thesis by blast
qed

text \<open>
  C5 as stated fails on a repeated id: the loop updates todo 1 twice, counts 2 and
  succeeds; the single statement updates one row, counts 1 against 2 requested ids and
  fails.
\<close>

theorem bulk_update_strategies_counterexample:
  "fst (bulk_update_todos 7 10 [1, 1] True ex_db) = (True, 2, None)
   \<and> fst (bulk_update_todos_efficient 7 10 [1, 1] True ex_db)
       = (False, 0, Some (SomeTodosNotUpdated (Some 2) 1))"
  by (simp add: bulk_update_todos_def bulk_update_todos_body_def
        bulk_update_todos_efficient_def bulk_update_todos_efficient_body_def
        catch_others_def ex_db_def ex_todo_def increment_version_def INT_MAX_def
        row_count_def array_length_def sql_ne_def is_true_def)

section \<open>Provisioning is idempotent\<close>

lemma create_profile_twice:
  "create_profile_for_user now2 gen2 u (create_profile_for_user now gen u s) =
     create_profile_for_user now gen u s"
  by (simp add: create_profile_for_user_def create_default_categories_def)

lemma insert_categories_mono: "set cs \<subseteq> set (insert_categories rs cs)"
proof (induction rs arbitrary: cs)
  case Nil
  then show ?case by simp
next
  case (Cons r rs)
  have "set cs \<subseteq> set (if category_conflict r cs then cs else cs @ [r])" by auto
  also have "\<dots> \<subseteq> set (insert_categories rs (if category_conflict r cs then cs else cs @ [r]))"
    by (rule Cons.IH)
  finally show ?case by simp
qed

lemma insert_categories_all_conflict:
  "\<forall>r\<in>set rs. category_conflict r cs \<Longrightarrow> insert_categories rs cs = cs"
  by (induction rs) auto

lemma insert_categories_none_conflict:
  assumes "\<forall>r\<in>set rs. \<not> category_conflict r cs"
    and "distinct (map cat_id rs)"
    and "distinct (map (\<lambda>r. (cat_user_id r, cat_name r)) rs)"
  shows "insert_categories rs cs = cs @ rs"
  using assms
proof (induction rs arbitrary: cs)
  case Nil
  then show ?case by simp
next
  case (Cons r rs)
  have "\<forall>q\<in>set rs. \<not> category_conflict q (cs @ [r])"
  proof
    fix q assume q: "q \<in> set rs"
    with Cons.prems have "\<not> category_conflict q cs" "cat_id q \<noteq> cat_id r"
      "(cat_user_id q, cat_name q) \<noteq> (cat_user_id r, cat_name r)"
      by (auto simp: image_iff)
    then show "\<not> category_conflict q (cs @ [r])"
      by (auto simp: category_conflict_def list_ex_iff)
  qed
  with Cons.prems Cons.IH[of "cs @ [r]"] show ?case by simp
qed

lemma insert_categories_named:
  assumes "\<forall>r\<in>set rs. \<not> list_ex (\<lambda>c. cat_id c = cat_id r) cs"
    and "distinct (map cat_id rs)"
    and "r \<in> set rs"
  shows "list_ex (named (cat_user_id r) (cat_name r)) (insert_categories rs cs)"
  using assms
proof (induction rs arbitrary: cs)
  case Nil
  then show ?case by simp
next
  case (Cons q rs)
  let ?cs = "if category_conflict q cs then cs else cs @ [q]"
  show ?case
  proof (cases "r = q")
    case True
    have "list_ex (named (cat_user_id q) (cat_name q)) ?cs"
      using Cons.prems(1) by (auto simp: category_conflict_def list_ex_iff named_def)
    then have "list_ex (named (cat_user_id q) (cat_name q)) (insert_categories rs ?cs)"
      using insert_categories_mono[of ?cs rs] unfolding list_ex_iff by blast
    with True show ?thesis by simp
  next
    case False
    with Cons.prems have r: "r \<in> set rs" by simp
    have fresh: "\<forall>p\<in>set rs. \<not> list_ex (\<lambda>c. cat_id c = cat_id p) ?cs"
      using Cons.prems(1,2) by (auto simp: list_ex_iff image_iff)
    from Cons.prems(2) have d: "distinct (map cat_id rs)" by simp
    from Cons.IH[OF fresh d r] show ?thesis by simp
  qed
qed


lemma default_rows_ids: "map cat_id (default_rows now gen u) = map gen [0..<4]"
  by (simp add: default_rows_def default_categories_def upt_rec)

lemma default_rows_keys:
  "map (\<lambda>r. (cat_user_id r, cat_name r)) (default_rows now gen u) =
     map (\<lambda>(n, c). (u, n)) default_categories"
  by (simp add: default_rows_def default_categories_def)

lemma default_rows_shown:
  "map (\<lambda>c. (cat_name c, cat_color c)) (default_rows now gen u) = default_categories"
  by (simp add: default_rows_def default_categories_def)

lemma default_rows_owner: "r \<in> set (default_rows now gen u) \<Longrightarrow> cat_user_id r = u"
  by (auto simp: default_rows_def default_categories_def)

lemma default_keys_distinct:
  "distinct (map (\<lambda>r. (cat_user_id r, cat_name r)) (default_rows now gen u))"
  unfolding default_rows_keys by (simp add: default_categories_def)

lemma create_default_twice:
  assumes fresh: "fresh_ids gen (categories s)"
  shows "create_default_categories now2 gen2 u (create_default_categories now gen u s) =
     create_default_categories now gen u s"
proof -
  let ?rs = "default_rows now gen u"
  let ?cs = "insert_categories ?rs (categories s)"
  have f1: "\<forall>r\<in>set ?rs. \<not> list_ex (\<lambda>c. cat_id c = cat_id r) (categories s)"
  proof
    fix r assume "r \<in> set ?rs"
    then have "cat_id r \<in> set (map cat_id ?rs)" by simp
    then have "cat_id r \<in> set (map gen [0..<4])" by (simp only: default_rows_ids)
    then obtain k where "k \<in> set [0..<4]" "cat_id r = gen k" by auto
    with fresh show "\<not> list_ex (\<lambda>c. cat_id c = cat_id r) (categories s)"
      by (simp add: fresh_ids_def list_all_iff)
  qed
  have f2: "distinct (map cat_id ?rs)"
    using fresh by (simp only: default_rows_ids fresh_ids_def)
  have "\<forall>q\<in>set (default_rows now2 gen2 u). category_conflict q ?cs"
  proof
    fix q assume q: "q \<in> set (default_rows now2 gen2 u)"
    then have "(cat_user_id q, cat_name q) \<in> set (map (\<lambda>r. (cat_user_id r, cat_name r)) (default_rows now2 gen2 u))"
      by force
    then have "(cat_user_id q, cat_name q) \<in> set (map (\<lambda>r. (cat_user_id r, cat_name r)) ?rs)"
      by (simp only: default_rows_keys)
    then obtain r where r: "r \<in> set ?rs" "cat_user_id r = cat_user_id q" "cat_name r = cat_name q"
      by auto
    from insert_categories_named[OF f1 f2 r(1)] r(2,3)
    show "category_conflict q ?cs"
      by (auto simp: category_conflict_def named_def list_ex_iff)
  qed
  then have "insert_categories (default_rows now2 gen2 u) ?cs = ?cs"
    by (rule insert_categories_all_conflict)
  then show ?thesis by (simp add: create_default_categories_def)
qed

lemma create_profile_new_user:
  assumes fresh: "fresh_ids gen (categories s)"
    and nop: "\<not> list_ex (\<lambda>p. prof_id p = u) (profiles s)"
    and noc: "\<not> list_ex (\<lambda>c. cat_user_id c = u) (categories s)"
  shows "create_profile_for_user now gen u s =
     s\<lparr>profiles := profiles s @ [\<lparr>prof_id = u, prof_created_at = now, prof_updated_at = now\<rparr>],
       categories := categories s @ default_rows now gen u\<rparr>"
proof -
  let ?rs = "default_rows now gen u"
  have "\<forall>r\<in>set ?rs. \<not> category_conflict r (categories s)"
  proof
    fix r assume r: "r \<in> set ?rs"
    then have "cat_id r \<in> set (map cat_id ?rs)" by simp
    then have "cat_id r \<in> set (map gen [0..<4])" by (simp only: default_rows_ids)
    then obtain k where "k \<in> set [0..<4]" "cat_id r = gen k" by auto
    with fresh have a: "\<not> list_ex (\<lambda>c. cat_id c = cat_id r) (categories s)"
      by (simp add: fresh_ids_def list_all_iff)
    from noc default_rows_owner[OF r] have b: "\<not> list_ex (\<lambda>c. cat_user_id c = cat_user_id r) (categories s)"
      by simp
    from a b show "\<not> category_conflict r (categories s)"
      by (auto simp: category_conflict_def list_ex_iff)
  qed
  moreover have "distinct (map cat_id ?rs)"
    using fresh by (simp only: default_rows_ids fresh_ids_def)
  ultimately have "insert_categories ?rs (categories s) = categories s @ ?rs"
    using default_keys_distinct by (rule insert_categories_none_conflict)
  with nop show ?thesis
    by (simp add: create_profile_for_user_def create_default_categories_def)
qed

text \<open>
  C9. A second run of the provisioning hook \<^const>\<open>create_profile_for_user\<close> for the
  same user changes nothing, and so does a second run of \<^const>\<open>create_default_categories\<close>
  once the first has run with ids new to the table. For a new user (no profile, no
  category yet) two runs leave one profile row and exactly the four starter categories,
  one per name.
\<close>

theorem provisioning_idempotent:
  "create_profile_for_user now2 gen2 u (create_profile_for_user now gen u s) =
     create_profile_for_user now gen u s
   \<and> (fresh_ids gen (categories s) \<longrightarrow>
        create_default_categories now2 gen2 u (create_default_categories now gen u s) =
          create_default_categories now gen u s)
   \<and> (fresh_ids gen (categories s)
        \<and> \<not> list_ex (\<lambda>p. prof_id p = u) (profiles s)
        \<and> \<not> list_ex (\<lambda>c. cat_user_id c = u) (categories s) \<longrightarrow>
        length (user_profiles u
          (create_profile_for_user now2 gen2 u (create_profile_for_user now gen u s))) = 1
        \<and> length (user_categories u
          (create_profile_for_user now2 gen2 u (create_profile_for_user now gen u s))) = 4
        \<and> map (\<lambda>c. (cat_name c, cat_color c)) (user_categories u
          (create_profile_for_user now2 gen2 u (create_profile_for_user now gen u s)))
           = default_categories)"
proof (intro conjI impI)
  show "create_profile_for_user now2 gen2 u (create_profile_for_user now gen u s) =
     create_profile_for_user now gen u s"
    by (rule create_profile_twice)
next
  assume "fresh_ids gen (categories s)"
  then show "create_default_categories now2 gen2 u (create_default_categories now gen u s) =
          create_default_categories now gen u s"
    by (rule create_default_twice)
next
  assume h: "fresh_ids gen (categories s)
        \<and> \<not> list_ex (\<lambda>p. prof_id p = u) (profiles s)
        \<and> \<not> list_ex (\<lambda>c. cat_user_id c = u) (categories s)"
  then have new: "create_profile_for_user now gen u s =
     s\<lparr>profiles := profiles s @ [\<lparr>prof_id = u, prof_created_at = now, prof_updated_at = now\<rparr>],
       categories := categories s @ default_rows now gen u\<rparr>"
    using create_profile_new_user by blast
  from h have p0: "filter (\<lambda>p. prof_id p = u) (profiles s) = []"
    and c0: "filter (\<lambda>c. cat_user_id c = u) (categories s) = []"
    by (simp_all add: filter_empty_conv list_ex_iff)
  have own: "filter (\<lambda>c. cat_user_id c = u) (default_rows now gen u) = default_rows now gen u"
    using default_rows_owner by (simp add: filter_id_conv)
  have both: "create_profile_for_user now2 gen2 u (create_profile_for_user now gen u s) =
     s\<lparr>profiles := profiles s @ [\<lparr>prof_id = u, prof_created_at = now, prof_updated_at = now\<rparr>],
       categories := categories s @ default_rows now gen u\<rparr>"
    by (rule trans[OF create_profile_twice new])
  have cats: "user_categories u (create_profile_for_user now2 gen2 u (create_profile_for_user now gen u s))
     = default_rows now gen u"
    by (simp add: both user_categories_def c0 own)
  show "length (user_profiles u
          (create_profile_for_user now2 gen2 u (create_profile_for_user now gen u s))) = 1"
    by (simp add: both user_profiles_def p0)
  show "length (user_categories u
          (create_profile_for_user now2 gen2 u (create_profile_for_user now gen u s))) = 4"
    unfolding cats by (simp add: default_rows_def default_categories_def)
  show "map (\<lambda>c. (cat_name c, cat_color c)) (user_categories u
          (create_profile_for_user now2 gen2 u (create_profile_for_user now gen u s)))
           = default_categories"
    unfolding cats by (rule default_rows_shown)
qed

theorem provisioning_idempotent_witness:
  "fresh_ids (\<lambda>k. 100 + k) (categories ex_db)
   \<and> \<not> list_ex (\<lambda>p. prof_id p = 30) (profiles ex_db)
   \<and> \<not> list_ex (\<lambda>c. cat_user_id c = 30) (categories ex_db)
   \<and> length (user_categories 30
        (create_profile_for_user 6 (\<lambda>k. 200 + k) 30
           (create_profile_for_user 5 (\<lambda>k. 100 + k) 30 ex_db))) = 4
   \<and> length (user_profiles 30
        (create_profile_for_user 6 (\<lambda>k. 200 + k) 30
           (create_profile_for_user 5 (\<lambda>k. 100 + k) 30 ex_db))) = 1
   \<and> create_default_categories 6 (\<lambda>k. 200 + k) 30
        (create_default_categories 5 (\<lambda>k. 100 + k) 30 ex_db)
       = create_default_categories 5 (\<lambda>k. 100 + k) 30 ex_db"
proof -
  have a: "fresh_ids (\<lambda>k. 100 + k) (categories ex_db)"
    by (simp add: fresh_ids_def ex_db_def upt_rec)
  have b: "\<not> list_ex (\<lambda>p. prof_id p = 30) (profiles ex_db)"
    by (simp add: ex_db_def)
  have c: "\<not> list_ex (\<lambda>c. cat_user_id c = 30) (categories ex_db)"
    by (simp add: ex_db_def)
  from a b c provisioning_idempotent[of 6 "\<lambda>k. 200 + k" 30 5 "\<lambda>k. 100 + k" ex_db]
  show ?thesis by blast
qed

section \<open>The floats of the search\<close>

lemma scale_up_numeral:
  "scale_up b (numeral k) x = (if b \<le> x then 0 else Suc (scale_up b (pred_numeral k) (2 * x)))"
  by (simp add: numeral_eq_Suc)

lemma scale_down_numeral:
  "scale_down b (numeral k) x = (if x < b then 0 else Suc (scale_down b (pred_numeral k) (x / 2)))"
  by (simp add: numeral_eq_Suc)

lemma float4_values:
  "float4 0 = 0"
  "float4 1 = 1"
  "float4 (4 / 5) = 13421773 / 16777216"
  "float4 (3 / 5) = 5033165 / 8388608"
  by (simp_all add: float4_def float_round_def round_half_even_def Let_def
      scale_up_numeral scale_down_numeral)

lemma float8_fifth: "float8 (1 / 5) = 3602879701896397 / 18014398509481984"
  by (simp add: float8_def float_round_def round_half_even_def Let_def
      scale_up_numeral scale_down_numeral)

text \<open>The constants of the search, for the evaluation of the examples.\<close>

lemma float4_code [code]:
  "float4 x =
     (if x = 0 then 0 else if x = 1 then 1
      else if x = 4 / 5 then 13421773 / 16777216
      else if x = 3 / 5 then 5033165 / 8388608
      else float_round 24 149 104 x)"
proof -
  have "float4 x =
     (if x = 0 then float4 0 else if x = 1 then float4 1
      else if x = 4 / 5 then float4 (4 / 5)
      else if x = 3 / 5 then float4 (3 / 5)
      else float4 x)"
    by metis
  also have "\<dots> =
     (if x = 0 then 0 else if x = 1 then 1
      else if x = 4 / 5 then 13421773 / 16777216
      else if x = 3 / 5 then 5033165 / 8388608
      else float_round 24 149 104 x)"
    by (simp only: float4_values float4_def[of x])
  finally show ?thesis .
qed

lemma float8_code [code]:
  "float8 x =
     (if x = 1 / 5 then 3602879701896397 / 18014398509481984 else float_round 53 1074 971 x)"
proof -
  have "float8 x = (if x = 1 / 5 then float8 (1 / 5) else float8 x)"
    by metis
  also have "\<dots> =
     (if x = 1 / 5 then 3602879701896397 / 18014398509481984 else float_round 53 1074 971 x)"
    by (simp only: float8_fifth float8_def[of x])
  finally show ?thesis .
qed

section \<open>LIKE on a term without wildcards\<close>

lemma like_match_percent: "like_match (ascii ''%'') s"
  by (induction s) (auto simp: ascii_def)

lemma like_plain_prefix:
  "plain v \<Longrightarrow> sql_like s (v @ ascii ''%'') = prefix v s"
  unfolding sql_like_def
proof (induction v arbitrary: s)
  case Nil
  then show ?case by (simp add: like_match_percent)
next
  case (Cons x xs)
  then have x: "x \<noteq> of_char CHR ''%''" "x \<noteq> of_char CHR ''_''" "x \<noteq> of_char CHR 0x5C"
    and xs: "plain xs"
    by (simp_all add: plain_def)
  show ?case
  proof (cases s)
    case Nil
    with x show ?thesis by simp
  next
    case (Cons c cs)
    with x Cons.IH[OF xs, of cs] show ?thesis by auto
  qed
qed

lemma like_plain_sublist:
  assumes "plain v"
  shows "sql_like s (ascii ''%'' @ v @ ascii ''%'') = sublist v s"
proof (induction s)
  case Nil
  have "like_match (v @ ascii ''%'') [] = prefix v []"
    using like_plain_prefix[OF assms, of "[]"] by (simp add: sql_like_def)
  then show ?case by (simp add: sql_like_def ascii_def)
next
  case (Cons c cs)
  have "like_match (v @ ascii ''%'') (c # cs) = prefix v (c # cs)"
    using like_plain_prefix[OF assms, of "c # cs"] by (simp add: sql_like_def)
  with Cons show ?case
    by (simp add: sql_like_def sublist_Cons_right ascii_def)
qed

section \<open>Ranked search\<close>

lemma search_rank_tier:
  "v \<noteq> [] \<Longrightarrow> plain v \<Longrightarrow> search_rank lower sim v t = tier_rank lower sim v (title t)"
  by (simp add: search_rank_def tier_rank_def tier_of_def like_plain_prefix like_plain_sublist)

lemma search_todos_Inr:
  assumes "search_todos lower sim u q cat lmt ofs s = Inr rs"
  shows "rs = map (\<lambda>t. search_row_of (categories s)
                        (search_rank lower sim (normalize_query lower q) t) t)
               (take (nat lmt) (drop (nat ofs)
                  (sort_key (\<lambda>t. (- search_rank lower sim (normalize_query lower q) t,
                                  - created_at t))
                     (filter (\<lambda>t. todo_user_id t = u
                                \<and> matches_query lower sim (normalize_query lower q) t
                                \<and> in_category cat t) (todos s)))))"
  using assms by (simp add: search_todos_def Let_def split: if_splits)

lemma search_todos_rows:
  assumes res: "search_todos lower sim u q cat lmt ofs s = Inr rs" and r: "r \<in> set rs"
  shows "\<exists>t\<in>set (todos s). todo_user_id t = u
     \<and> matches_query lower sim (normalize_query lower q) t
     \<and> in_category cat t
     \<and> r = search_row_of (categories s) (search_rank lower sim (normalize_query lower q) t) t"
proof -
  let ?W = "\<lambda>t. todo_user_id t = u \<and> matches_query lower sim (normalize_query lower q) t
                \<and> in_category cat t"
  let ?ord = "sort_key (\<lambda>t. (- search_rank lower sim (normalize_query lower q) t, - created_at t))
                     (filter ?W (todos s))"
  from r obtain t where t: "t \<in> set (take (nat lmt) (drop (nat ofs) ?ord))"
    and rt: "r = search_row_of (categories s)
                   (search_rank lower sim (normalize_query lower q) t) t"
    unfolding search_todos_Inr[OF res] by auto
  from t have "t \<in> set ?ord" by (meson in_set_takeD in_set_dropD)
  then have "t \<in> set (todos s) \<and> ?W t" by simp
  with rt show ?thesis by blast
qed

lemma search_todos_sorted:
  assumes res: "search_todos lower sim u q cat lmt ofs s = Inr rs"
  shows "sorted_wrt ranked_before rs"
proof -
  let ?k = "\<lambda>t. (- search_rank lower sim (normalize_query lower q) t, - created_at t)"
  let ?W = "\<lambda>t. todo_user_id t = u \<and> matches_query lower sim (normalize_query lower q) t
                \<and> in_category cat t"
  let ?ord = "sort_key ?k (filter ?W (todos s))"
  have "sorted (map ?k ?ord)" by (rule sorted_sort_key)
  then have "sorted_wrt (\<lambda>a b. ?k a \<le> ?k b) ?ord" by (simp add: sorted_map)
  then have "sorted_wrt (\<lambda>a b. ?k a \<le> ?k b) (take (nat lmt) (drop (nat ofs) ?ord))"
    by (intro sorted_wrt_take sorted_wrt_drop)
  then show ?thesis
    unfolding search_todos_Inr[OF res] sorted_wrt_map
    by (rule sorted_wrt_mono_rel[rotated])
      (auto simp: ranked_before_def search_row_of_def less_eq_prod_def)
qed

text \<open>
  The search looks at \<open>sim\<close> on the lower-case titles of the caller's todos and the
  normalized term only.
\<close>

lemma insort_key_cong_set:
  "f x = g x \<Longrightarrow> (\<And>y. y \<in> set ys \<Longrightarrow> f y = g y) \<Longrightarrow> insort_key f x ys = insort_key g x ys"
  by (induction ys) simp_all

lemma sort_key_cong_set:
  "(\<And>x. x \<in> set xs \<Longrightarrow> f x = g x) \<Longrightarrow> sort_key f xs = sort_key g xs"
proof (induction xs)
  case Nil
  then show ?case by simp
next
  case (Cons a xs)
  then have ih: "sort_key f xs = sort_key g xs" by simp
  have "insort_key f a (sort_key g xs) = insort_key g a (sort_key g xs)"
    by (rule insort_key_cong_set) (simp_all add: Cons.prems)
  with ih show ?case by simp
qed

lemma matches_query_cong:
  "sim (lower (title t)) v = sim' (lower (title t)) v \<Longrightarrow>
   matches_query lower sim v t = matches_query lower sim' v t"
  by (simp add: matches_query_def)

lemma search_rank_cong:
  "sim (lower (title t)) v = sim' (lower (title t)) v \<Longrightarrow>
   search_rank lower sim v t = search_rank lower sim' v t"
  by (simp add: search_rank_def)
lemma search_todos_cong:
  assumes eq: "\<And>t. t \<in> set (todos s) \<Longrightarrow> todo_user_id t = u \<Longrightarrow>
      sim (lower (title t)) (normalize_query lower q)
        = sim' (lower (title t)) (normalize_query lower q)"
  shows "search_todos lower sim u q cat lmt ofs s = search_todos lower sim' u q cat lmt ofs s"
proof -
  let ?v = "normalize_query lower q"
  let ?W = "\<lambda>sim t. todo_user_id t = u \<and> matches_query lower sim ?v t \<and> in_category cat t"
  let ?k = "\<lambda>sim t. (- search_rank lower sim ?v t, - created_at t)"
  have m: "matches_query lower sim ?v t = matches_query lower sim' ?v t"
    if "t \<in> set (todos s)" "todo_user_id t = u" for t
    by (rule matches_query_cong) (rule eq[OF that])
  have r: "search_rank lower sim ?v t = search_rank lower sim' ?v t"
    if "t \<in> set (todos s)" "todo_user_id t = u" for t
    by (rule search_rank_cong) (rule eq[OF that])
  have sel: "filter (?W sim) (todos s) = filter (?W sim') (todos s)"
  proof (rule filter_cong[OF refl])
    fix t assume "t \<in> set (todos s)"
    then show "?W sim t = ?W sim' t" using m[of t] by blast
  qed
  have ord: "sort_key (?k sim) (filter (?W sim') (todos s))
      = sort_key (?k sim') (filter (?W sim') (todos s))"
  proof (rule sort_key_cong_set)
    fix t assume "t \<in> set (filter (?W sim') (todos s))"
    then have "t \<in> set (todos s)" "todo_user_id t = u" by simp_all
    then show "?k sim t = ?k sim' t" using r[of t] by simp
  qed
  let ?page = "take (nat lmt) (drop (nat ofs) (sort_key (?k sim') (filter (?W sim') (todos s))))"
  have out: "map (\<lambda>t. search_row_of (categories s) (search_rank lower sim ?v t) t) ?page
      = map (\<lambda>t. search_row_of (categories s) (search_rank lower sim' ?v t) t) ?page"
  proof (rule map_cong[OF refl])
    fix t assume "t \<in> set ?page"
    then have "t \<in> set (sort_key (?k sim') (filter (?W sim') (todos s)))"
      by (meson in_set_takeD in_set_dropD)
    then have "t \<in> set (todos s)" "todo_user_id t = u" by simp_all
    then show "search_row_of (categories s) (search_rank lower sim ?v t) t
        = search_row_of (categories s) (search_rank lower sim' ?v t) t"
      using r[of t] by simp
  qed
  have a: "search_todos lower sim u q cat lmt ofs s =
      (if ofs < 0 then Inl NegativeOffset
       else if lmt < 0 then Inl NegativeLimit
       else Inr (map (\<lambda>t. search_row_of (categories s) (search_rank lower sim ?v t) t)
              (take (nat lmt) (drop (nat ofs) (sort_key (?k sim) (filter (?W sim) (todos s)))))))"
    for sim
    unfolding search_todos_def Let_def ..
  show ?thesis
    unfolding a sel ord out ..
qed

text \<open>
  C6, as the code has it. For a search term that is not empty once trimmed and put in
  lower case, and has no \<^verbatim>\<open>LIKE\<close> wildcard in it, every row \<^const>\<open>search_todos\<close>
  returns is a todo of the caller with the rank of its tier: 1 for a title equal to the
  term, else the \<^verbatim>\<open>real\<close> nearest to 0.8 for a title that starts with it, else the
  \<^verbatim>\<open>real\<close> nearest to 0.6 for a title that contains it, else the similarity, and a
  row of this last tier is returned only with a similarity above 0.2. The result is
  ordered by rank, highest first, then by \<open>created_at\<close>, newest first. An exact match
  ranks above a prefix match, which ranks above a substring match; the rank of a fuzzy
  row is its similarity, which the code does not keep below 0.6.
\<close>

theorem search_ranking:
  assumes v: "normalize_query lower q = v" and ne: "v \<noteq> []" and pl: "plain v"
    and res: "search_todos lower sim u q cat lmt ofs s = Inr rs"
  shows "(\<forall>r\<in>set rs.
            (\<exists>t\<in>set (todos s). todo_user_id t = u \<and> sr_id r = todo_id t
               \<and> sr_title r = title t \<and> sr_created_at r = created_at t)
            \<and> sr_rank r = tier_rank lower sim v (sr_title r)
            \<and> (tier_of lower v (sr_title r) = Exact \<longrightarrow> sr_rank r = 1)
            \<and> (tier_of lower v (sr_title r) = Prefix \<longrightarrow> sr_rank r = 13421773 / 16777216)
            \<and> (tier_of lower v (sr_title r) = Substring \<longrightarrow> sr_rank r = 5033165 / 8388608)
            \<and> (tier_of lower v (sr_title r) = Fuzzy \<longrightarrow>
                 sr_rank r = sim (lower (sr_title r)) v
                 \<and> sr_rank r > float8 0.2 \<and> sr_rank r > 1 / 5))
     \<and> sorted_wrt ranked_before rs
     \<and> (\<forall>a\<in>set rs. \<forall>b\<in>set rs.
          (tier_of lower v (sr_title a) = Exact \<and> tier_of lower v (sr_title b) = Prefix
             \<longrightarrow> sr_rank a > sr_rank b)
          \<and> (tier_of lower v (sr_title a) = Prefix \<and> tier_of lower v (sr_title b) = Substring
             \<longrightarrow> sr_rank a > sr_rank b)
          \<and> (tier_of lower v (sr_title a) = Exact \<and> tier_of lower v (sr_title b) = Substring
             \<longrightarrow> sr_rank a > sr_rank b))"
proof -
  have row: "(\<exists>t\<in>set (todos s). todo_user_id t = u \<and> sr_id r = todo_id t
               \<and> sr_title r = title t \<and> sr_created_at r = created_at t)
            \<and> sr_rank r = tier_rank lower sim v (sr_title r)
            \<and> (tier_of lower v (sr_title r) = Exact \<longrightarrow> sr_rank r = 1)
            \<and> (tier_of lower v (sr_title r) = Prefix \<longrightarrow> sr_rank r = 13421773 / 16777216)
            \<and> (tier_of lower v (sr_title r) = Substring \<longrightarrow> sr_rank r = 5033165 / 8388608)
            \<and> (tier_of lower v (sr_title r) = Fuzzy \<longrightarrow>
                 sr_rank r = sim (lower (sr_title r)) v
                 \<and> sr_rank r > float8 0.2 \<and> sr_rank r > 1 / 5)"
    if r: "r \<in> set rs" for r
  proof -
    from search_todos_rows[OF res r, unfolded v]
    obtain t where t: "t \<in> set (todos s)" "todo_user_id t = u" "matches_query lower sim v t"
      and rt: "r = search_row_of (categories s) (search_rank lower sim v t) t"
      by blast
    from rt have cols: "sr_id r = todo_id t" "sr_title r = title t"
      "sr_created_at r = created_at t" "sr_rank r = search_rank lower sim v t"
      by (simp_all add: search_row_of_def)
    from cols have rk: "sr_rank r = tier_rank lower sim v (sr_title r)"
      by (simp add: search_rank_tier[OF ne pl])
    have ex: "sr_rank r = 1" if "tier_of lower v (sr_title r) = Exact"
      using that rk by (simp add: tier_rank_def float4_values)
    have pr: "sr_rank r = 13421773 / 16777216" if "tier_of lower v (sr_title r) = Prefix"
      using that rk by (simp add: tier_rank_def float4_values)
    have sb: "sr_rank r = 5033165 / 8388608" if "tier_of lower v (sr_title r) = Substring"
      using that rk by (simp add: tier_rank_def float4_values)
    have fz: "sr_rank r = sim (lower (sr_title r)) v \<and> sr_rank r > float8 0.2 \<and> sr_rank r > 1 / 5"
      if fz: "tier_of lower v (sr_title r) = Fuzzy"
    proof -
      from fz have ns: "\<not> sublist v (lower (title t))"
        by (auto simp: cols tier_of_def split: if_splits)
      from fz rk have e: "sr_rank r = sim (lower (sr_title r)) v"
        by (simp add: tier_rank_def)
      from t(3) ns ne have g: "sim (lower (title t)) v > float8 0.2"
        by (simp add: matches_query_def like_plain_sublist[OF pl])
      have "float8 0.2 > (1 / 5 :: real)"
        by (simp add: float8_fifth)
      with g have "sim (lower (title t)) v > 1 / 5"
        by (rule less_trans[rotated])
      with g e cols show ?thesis by simp
    qed
    from t cols have src: "\<exists>t\<in>set (todos s). todo_user_id t = u \<and> sr_id r = todo_id t
               \<and> sr_title r = title t \<and> sr_created_at r = created_at t"
      by blast
    show ?thesis by (intro conjI impI src rk ex pr sb fz)
  qed
  have tiers: "(tier_of lower v (sr_title a) = Exact \<and> tier_of lower v (sr_title b) = Prefix
             \<longrightarrow> sr_rank a > sr_rank b)
          \<and> (tier_of lower v (sr_title a) = Prefix \<and> tier_of lower v (sr_title b) = Substring
             \<longrightarrow> sr_rank a > sr_rank b)
          \<and> (tier_of lower v (sr_title a) = Exact \<and> tier_of lower v (sr_title b) = Substring
             \<longrightarrow> sr_rank a > sr_rank b)"
    if "a \<in> set rs" "b \<in> set rs" for a b
  proof -
    from row[OF that(1)] have a: "sr_rank a = tier_rank lower sim v (sr_title a)" by simp
    from row[OF that(2)] have b: "sr_rank b = tier_rank lower sim v (sr_title b)" by simp
    show ?thesis by (simp add: a b tier_rank_def float4_values)
  qed
  have rows: "\<forall>r\<in>set rs.
            (\<exists>t\<in>set (todos s). todo_user_id t = u \<and> sr_id r = todo_id t
               \<and> sr_title r = title t \<and> sr_created_at r = created_at t)
            \<and> sr_rank r = tier_rank lower sim v (sr_title r)
            \<and> (tier_of lower v (sr_title r) = Exact \<longrightarrow> sr_rank r = 1)
            \<and> (tier_of lower v (sr_title r) = Prefix \<longrightarrow> sr_rank r = 13421773 / 16777216)
            \<and> (tier_of lower v (sr_title r) = Substring \<longrightarrow> sr_rank r = 5033165 / 8388608)
            \<and> (tier_of lower v (sr_title r) = Fuzzy \<longrightarrow>
                 sr_rank r = sim (lower (sr_title r)) v
                 \<and> sr_rank r > float8 0.2 \<and> sr_rank r > 1 / 5)"
    by (rule ballI) (rule row)
  have pairs: "\<forall>a\<in>set rs. \<forall>b\<in>set rs.
          (tier_of lower v (sr_title a) = Exact \<and> tier_of lower v (sr_title b) = Prefix
             \<longrightarrow> sr_rank a > sr_rank b)
          \<and> (tier_of lower v (sr_title a) = Prefix \<and> tier_of lower v (sr_title b) = Substring
             \<longrightarrow> sr_rank a > sr_rank b)
          \<and> (tier_of lower v (sr_title a) = Exact \<and> tier_of lower v (sr_title b) = Substring
             \<longrightarrow> sr_rank a > sr_rank b)"
    by (intro ballI) (rule tiers)
  from rows search_todos_sorted[OF res] pairs show ?thesis by (intro conjI)
qed

lemma milk_query:
  "normalize_query lower_c (Some (ascii ''  Buy Milk '')) = ascii ''buy milk''"
  by code_simp

text \<open>The table \<^const>\<open>milk_sim\<close> holds the similarities of the titles of \<open>milk_db\<close>.\<close>

lemma milk_sims:
  "list_all (\<lambda>t. similarity_c (lower_c (title t)) (ascii ''buy milk'')
               = milk_sim (lower_c (title t)) (ascii ''buy milk'')) (todos milk_db)"
  by (simp add: milk_db_def ex_todo_def milk_sim_def similarity_def trigrams_def lower_c_def
      alnum_c_def ascii_def float4_def float_round_def round_half_even_def Let_def
      scale_up_numeral scale_down_numeral)

lemma milk_call:
  "search_todos lower_c similarity_c 10 (Some (ascii ''  Buy Milk '')) cat
     lmt ofs milk_db
   = search_todos lower_c milk_sim 10 (Some (ascii ''  Buy Milk '')) cat lmt ofs milk_db"
proof (rule search_todos_cong)
  fix t assume "t \<in> set (todos milk_db)"
  with milk_sims
  show "similarity_c (lower_c (title t))
          (normalize_query lower_c (Some (ascii ''  Buy Milk '')))
      = milk_sim (lower_c (title t)) (normalize_query lower_c (Some (ascii ''  Buy Milk '')))"
    unfolding milk_query list_all_iff by blast
qed

lemma wild_query: "normalize_query lower_c (Some (ascii ''b_y'')) = ascii ''b_y''"
  by code_simp

lemma wild_sims:
  "list_all (\<lambda>t. similarity_c (lower_c (title t)) (ascii ''b_y'')
               = wild_sim (lower_c (title t)) (ascii ''b_y'')) (todos milk_db)"
  by (simp add: milk_db_def ex_todo_def wild_sim_def similarity_def trigrams_def lower_c_def
      alnum_c_def ascii_def float4_def float_round_def round_half_even_def Let_def
      scale_up_numeral scale_down_numeral)

lemma wild_call:
  "search_todos lower_c similarity_c 10 (Some (ascii ''b_y'')) cat lmt ofs milk_db
   = search_todos lower_c wild_sim 10 (Some (ascii ''b_y'')) cat lmt ofs milk_db"
proof (rule search_todos_cong)
  fix t assume "t \<in> set (todos milk_db)"
  with wild_sims
  show "similarity_c (lower_c (title t)) (normalize_query lower_c (Some (ascii ''b_y'')))
      = wild_sim (lower_c (title t)) (normalize_query lower_c (Some (ascii ''b_y'')))"
    unfolding wild_query list_all_iff by blast
qed

lemma milk_search:
  "map_sum id (map (\<lambda>r. (sr_title r, sr_rank r)))
     (search_todos lower_c similarity_c 10 (Some (ascii ''  Buy Milk '')) None
        20 0 milk_db)
   = Inr [(ascii ''Buy milk'', 1), (ascii ''Milk buy'', 1),
          (ascii ''Buy milk today'', 13421773 / 16777216),
          (ascii ''I need to buy milk'', 5033165 / 8388608),
          (ascii ''Bu'', 13421773 / 67108864)]"
  unfolding milk_call by code_simp

lemma milk_tiers:
  "list_ex (\<lambda>(ttl, k). tier_of lower_c (ascii ''buy milk'') ttl = Exact \<and> k = 1)
     [(ascii ''Buy milk'', 1), (ascii ''Milk buy'', 1),
      (ascii ''Buy milk today'', 13421773 / 16777216),
      (ascii ''I need to buy milk'', 5033165 / 8388608),
      (ascii ''Bu'', 13421773 / 67108864 :: real)]"
  "list_ex (\<lambda>(ttl, k). tier_of lower_c (ascii ''buy milk'') ttl = Prefix
              \<and> k = 13421773 / 16777216)
     [(ascii ''Buy milk'', 1), (ascii ''Milk buy'', 1),
      (ascii ''Buy milk today'', 13421773 / 16777216),
      (ascii ''I need to buy milk'', 5033165 / 8388608),
      (ascii ''Bu'', 13421773 / 67108864 :: real)]"
  "list_ex (\<lambda>(ttl, k). tier_of lower_c (ascii ''buy milk'') ttl = Substring
              \<and> k = 5033165 / 8388608)
     [(ascii ''Buy milk'', 1), (ascii ''Milk buy'', 1),
      (ascii ''Buy milk today'', 13421773 / 16777216),
      (ascii ''I need to buy milk'', 5033165 / 8388608),
      (ascii ''Bu'', 13421773 / 67108864 :: real)]"
  "list_ex (\<lambda>(ttl, k). tier_of lower_c (ascii ''buy milk'') ttl = Fuzzy \<and> k > float8 0.2)
     [(ascii ''Buy milk'', 1), (ascii ''Milk buy'', 1),
      (ascii ''Buy milk today'', 13421773 / 16777216),
      (ascii ''I need to buy milk'', 5033165 / 8388608),
      (ascii ''Bu'', 13421773 / 67108864 :: real)]"
  by code_simp+

text \<open>
  In a locale whose \<^verbatim>\<open>LOWER\<close> knows the accented letters, a title and a term that
  differ in the case of such a letter are an exact match, whatever the similarity.
\<close>

lemma ecole_query:
  "normalize_query lower_latin1 (Some (0xC9 # ascii ''COLE'')) = 0xE9 # ascii ''cole''"
  by code_simp

lemma ecole_search:
  "map_sum id (map (\<lambda>r. (sr_title r, sr_rank r)))
     (search_todos lower_latin1 sim 10 (Some (0xC9 # ascii ''COLE'')) None 20 0 ecole_db)
   = Inr [(0xC9 # ascii ''cole'', 1)]"
  unfolding search_todos_def Let_def ecole_query
  by (simp add: ecole_db_def ex_todo_def matches_query_def search_rank_def in_category_def
      search_row_of_def category_of_def lower_latin1_def ascii_def sql_like_def float4_values)

theorem search_ranking_witness:
  "normalize_query lower_c (Some (ascii ''  Buy Milk '')) = ascii ''buy milk''
   \<and> plain (ascii ''buy milk'')
   \<and> (\<exists>rs. search_todos lower_c similarity_c 10 (Some (ascii ''  Buy Milk ''))
               None 20 0 milk_db = Inr rs
        \<and> map (\<lambda>r. (sr_title r, sr_rank r)) rs
            = [(ascii ''Buy milk'', 1), (ascii ''Milk buy'', 1),
               (ascii ''Buy milk today'', 13421773 / 16777216),
               (ascii ''I need to buy milk'', 5033165 / 8388608),
               (ascii ''Bu'', 13421773 / 67108864)]
        \<and> list_ex (\<lambda>r. tier_of lower_c (ascii ''buy milk'') (sr_title r) = Exact
                      \<and> sr_rank r = 1) rs
        \<and> list_ex (\<lambda>r. tier_of lower_c (ascii ''buy milk'') (sr_title r) = Prefix
                      \<and> sr_rank r = 13421773 / 16777216) rs
        \<and> list_ex (\<lambda>r. tier_of lower_c (ascii ''buy milk'') (sr_title r) = Substring
                      \<and> sr_rank r = 5033165 / 8388608) rs
        \<and> list_ex (\<lambda>r. tier_of lower_c (ascii ''buy milk'') (sr_title r) = Fuzzy
                      \<and> sr_rank r > float8 0.2) rs
        \<and> sorted_wrt ranked_before rs)
   \<and> normalize_query lower_latin1 (Some (0xC9 # ascii ''COLE'')) = 0xE9 # ascii ''cole''
   \<and> map_sum id (map (\<lambda>r. (sr_title r, sr_rank r)))
        (search_todos lower_latin1 similarity_latin1 10
           (Some (0xC9 # ascii ''COLE'')) None 20 0 ecole_db)
      = Inr [(0xC9 # ascii ''cole'', 1)]"
proof -
  let ?call = "search_todos lower_c similarity_c 10 (Some (ascii ''  Buy Milk ''))
                 None 20 0 milk_db"
  let ?out = "[(ascii ''Buy milk'', 1), (ascii ''Milk buy'', 1),
               (ascii ''Buy milk today'', 13421773 / 16777216),
               (ascii ''I need to buy milk'', 5033165 / 8388608),
               (ascii ''Bu'', 13421773 / 67108864 :: real)]"
  have p: "plain (ascii ''buy milk'')" by (simp add: plain_def ascii_def)
  have ne: "ascii ''buy milk'' \<noteq> []" by (simp add: ascii_def)
  have r: "?call = Inr (projr ?call)"
    by (simp add: search_todos_def Let_def)
  have m: "map (\<lambda>r. (sr_title r, sr_rank r)) (projr ?call) = ?out"
    using milk_search by (subst (asm) r) simp
  from search_ranking[OF milk_query ne p r]
  have srt: "sorted_wrt ranked_before (projr ?call)" by blast
  have tiers:
    "list_ex (\<lambda>r. tier_of lower_c (ascii ''buy milk'') (sr_title r) = Exact
                \<and> sr_rank r = 1) (projr ?call)"
    "list_ex (\<lambda>r. tier_of lower_c (ascii ''buy milk'') (sr_title r) = Prefix
                \<and> sr_rank r = 13421773 / 16777216) (projr ?call)"
    "list_ex (\<lambda>r. tier_of lower_c (ascii ''buy milk'') (sr_title r) = Substring
                \<and> sr_rank r = 5033165 / 8388608) (projr ?call)"
    "list_ex (\<lambda>r. tier_of lower_c (ascii ''buy milk'') (sr_title r) = Fuzzy
                \<and> sr_rank r > float8 0.2) (projr ?call)"
    using milk_tiers[folded m] by (simp_all add: list_ex_iff)
  have "\<exists>rs. ?call = Inr rs
        \<and> map (\<lambda>r. (sr_title r, sr_rank r)) rs = ?out
        \<and> list_ex (\<lambda>r. tier_of lower_c (ascii ''buy milk'') (sr_title r) = Exact
                      \<and> sr_rank r = 1) rs
        \<and> list_ex (\<lambda>r. tier_of lower_c (ascii ''buy milk'') (sr_title r) = Prefix
                      \<and> sr_rank r = 13421773 / 16777216) rs
        \<and> list_ex (\<lambda>r. tier_of lower_c (ascii ''buy milk'') (sr_title r) = Substring
                      \<and> sr_rank r = 5033165 / 8388608) rs
        \<and> list_ex (\<lambda>r. tier_of lower_c (ascii ''buy milk'') (sr_title r) = Fuzzy
                      \<and> sr_rank r > float8 0.2) rs
        \<and> sorted_wrt ranked_before rs"
    by (rule exI[of _ "projr ?call"])
      (intro conjI r m srt tiers)
  with milk_query p ecole_query ecole_search show ?thesis by (intro conjI)
qed

text \<open>
  C6 as stated fails on the order of the tiers. For the term \<open>buy milk\<close> the title
  \<open>Milk buy\<close> is no exact, prefix or substring match, its trigram similarity is 1, and
  \<^const>\<open>search_todos\<close> lists it above the prefix match and the substring match. It
  fails on the ranks of the prefix and the substring match, which are the \<^verbatim>\<open>real\<close>s
  nearest to 0.8 and 0.6, above 0.8 and 0.6. It also fails on a term with a wildcard:
  for the term \<open>b_y\<close> the titles \<open>Buy milk\<close> and \<open>Buy milk today\<close> get the rank of a
  prefix match, and do not start with the term.
\<close>

theorem search_ranking_counterexample:
  "tier_of lower_c (ascii ''buy milk'') (ascii ''Milk buy'') = Fuzzy
   \<and> tier_of lower_c (ascii ''buy milk'') (ascii ''Buy milk today'') = Prefix
   \<and> tier_of lower_c (ascii ''buy milk'') (ascii ''I need to buy milk'') = Substring
   \<and> map_sum id (map (\<lambda>r. (sr_title r, sr_rank r)))
        (search_todos lower_c similarity_c 10 (Some (ascii ''  Buy Milk ''))
           None 20 0 milk_db)
      = Inr [(ascii ''Buy milk'', 1), (ascii ''Milk buy'', 1),
             (ascii ''Buy milk today'', 13421773 / 16777216),
             (ascii ''I need to buy milk'', 5033165 / 8388608),
             (ascii ''Bu'', 13421773 / 67108864)]
   \<and> (13421773 / 16777216 :: real) \<noteq> 0.8 \<and> (5033165 / 8388608 :: real) \<noteq> 0.6
   \<and> \<not> prefix (ascii ''b_y'') (lower_c (ascii ''Buy milk''))
   \<and> \<not> prefix (ascii ''b_y'') (lower_c (ascii ''Buy milk today''))
   \<and> map_sum id (map (\<lambda>r. (sr_title r, sr_rank r)))
        (search_todos lower_c similarity_c 10 (Some (ascii ''b_y'')) None 20 0 milk_db)
      = Inr [(ascii ''Buy milk'', 13421773 / 16777216),
             (ascii ''Buy milk today'', 13421773 / 16777216),
             (ascii ''Milk buy'', 5033165 / 8388608),
             (ascii ''I need to buy milk'', 5033165 / 8388608)]"
proof -
  have a: "tier_of lower_c (ascii ''buy milk'') (ascii ''Milk buy'') = Fuzzy"
    "tier_of lower_c (ascii ''buy milk'') (ascii ''Buy milk today'') = Prefix"
    "tier_of lower_c (ascii ''buy milk'') (ascii ''I need to buy milk'') = Substring"
    "(13421773 / 16777216 :: real) \<noteq> 0.8" "(5033165 / 8388608 :: real) \<noteq> 0.6"
    "\<not> prefix (ascii ''b_y'') (lower_c (ascii ''Buy milk''))"
    "\<not> prefix (ascii ''b_y'') (lower_c (ascii ''Buy milk today''))"
    by code_simp+
  have b: "map_sum id (map (\<lambda>r. (sr_title r, sr_rank r)))
        (search_todos lower_c similarity_c 10 (Some (ascii ''b_y'')) None 20 0 milk_db)
      = Inr [(ascii ''Buy milk'', 13421773 / 16777216),
             (ascii ''Buy milk today'', 13421773 / 16777216),
             (ascii ''Milk buy'', 5033165 / 8388608),
             (ascii ''I need to buy milk'', 5033165 / 8388608)]"
    unfolding wild_call by code_simp
  show ?thesis by (intro conjI a b milk_search)
qed

section \<open>Cursor pagination\<close>

lemma get_todos_cursor_closed:
  assumes "0 \<le> lmt" "lmt < INT_MAX"
  shows "get_todos_cursor lower sim now u cur lmt q cat s =
     Inr (map (cursor_row_of (categories s)
                 (int (length (candidates lower sim u (cursor_of now cur) q cat s)) > lmt))
            (take (nat lmt) (newest_first (candidates lower sim u (cursor_of now cur) q cat s))))"
proof -
  have extra: "(lmt < int (length (take (nat (lmt + 1)) xs))) = (lmt < int (length xs))"
    for xs :: "todo list"
    using assms by auto
  have tk: "take (nat lmt) (take (nat (lmt + 1)) xs) = take (nat lmt) xs" for xs :: "todo list"
    using assms by (simp add: min_def)
  have ok: "\<not> lmt + 1 > INT_MAX" "\<not> lmt < 0"
    using assms by simp_all
  show ?thesis
    unfolding get_todos_cursor_def Let_def candidates_def newest_first_def cursor_of_def day_def
    by (simp only: extra tk ok if_False length_sort)
qed

lemma cursor_row_of_cols:
  "cr_id (cursor_row_of cs m t) = todo_id t"
  "cr_created_at (cursor_row_of cs m t) = created_at t"
  "has_more (cursor_row_of cs m t) = m"
  by (simp_all add: cursor_row_of_def)

lemma newest_first_sorted:
  "sorted_wrt (\<lambda>a b. created_at a \<ge> created_at b) (newest_first ts)"
proof -
  have "sorted (map (\<lambda>t. - created_at t) (newest_first ts))"
    unfolding newest_first_def by (rule sorted_sort_key)
  then show ?thesis by (simp add: sorted_map)
qed

lemma newest_first_strict:
  assumes "distinct (map created_at ts)"
  shows "sorted_wrt (\<lambda>a b. created_at a > created_at b) (newest_first ts)"
proof -
  have d: "distinct (map created_at (newest_first ts))"
    using assms by (simp add: distinct_map newest_first_def)
  have "sorted_wrt (\<lambda>a b. created_at a \<ge> created_at b) xs \<Longrightarrow> distinct (map created_at xs) \<Longrightarrow>
      sorted_wrt (\<lambda>a b. created_at a > created_at b) xs" for xs :: "todo list"
  proof (induction xs)
    case Nil
    then show ?case by simp
  next
    case (Cons a xs)
    have "created_at y < created_at a" if y: "y \<in> set xs" for y
    proof -
      from Cons.prems(1) y have "created_at y \<le> created_at a" by simp
      moreover from Cons.prems(2) have "created_at a \<notin> created_at ` set xs" by simp
      with y have "created_at y \<noteq> created_at a" by (metis imageI)
      ultimately show ?thesis by simp
    qed
    with Cons show ?case by simp
  qed
  from this[OF newest_first_sorted d] show ?thesis .
qed

lemma strict_filter_below:
  "sorted_wrt (\<lambda>a b. created_at a > created_at b) S \<Longrightarrow> j < length S \<Longrightarrow>
   filter (\<lambda>t. created_at t < created_at (S ! j)) S = drop (Suc j) S"
proof (induction S arbitrary: j)
  case Nil
  then show ?case by simp
next
  case (Cons x xs)
  show ?case
  proof (cases j)
    case 0
    with Cons.prems show ?thesis by (auto simp: filter_id_conv)
  next
    case (Suc i)
    with Cons.prems have i: "i < length xs" by simp
    with Cons.prems have "\<not> created_at x < created_at (xs ! i)"
      by (simp add: not_less less_imp_le)
    with Cons.IH[OF _ i] Cons.prems Suc show ?thesis by simp
  qed
qed

lemma last_take:
  assumes "0 < n" "n \<le> length xs"
  shows "last (take n xs) = xs ! (n - 1)"
proof -
  from assms have "take n xs \<noteq> []" by auto
  then have "last (take n xs) = take n xs ! (length (take n xs) - 1)"
    by (rule last_conv_nth)
  also have "\<dots> = take n xs ! (n - 1)" using assms by (simp add: min_def)
  also have "\<dots> = xs ! (n - 1)" using assms by (intro nth_take) simp
  finally show ?thesis .
qed

lemma candidates_below:
  assumes "c2 \<le> c1"
  shows "candidates lower sim u c2 q cat s =
     filter (\<lambda>t. created_at t < c2) (candidates lower sim u c1 q cat s)"
  unfolding candidates_def filter_filter
  by (rule filter_cong) (use assms in auto)

lemma second_page:
  assumes lim: "0 < lmt" "lmt < INT_MAX"
    and d: "distinct (map created_at (candidates lower sim u c1 q cat s))"
    and n: "lmt < int (length (candidates lower sim u c1 q cat s))"
  shows "newest_first (candidates lower sim u
            (created_at (newest_first (candidates lower sim u c1 q cat s) ! (nat lmt - 1))) q cat s)
         = drop (nat lmt) (newest_first (candidates lower sim u c1 q cat s))"
proof -
  let ?C = "candidates lower sim u c1 q cat s"
  let ?S = "newest_first ?C"
  let ?j = "nat lmt - 1"
  have len: "length ?S = length ?C" by (simp add: newest_first_def)
  from lim n have j: "?j < length ?S" "Suc ?j = nat lmt" by (simp_all add: len)
  then have "?S ! ?j \<in> set ?S" by (meson nth_mem)
  then have "?S ! ?j \<in> set ?C" by (simp add: newest_first_def)
  then have le: "created_at (?S ! ?j) \<le> c1" by (simp add: candidates_def)
  have "candidates lower sim u (created_at (?S ! ?j)) q cat s
      = filter (\<lambda>t. created_at t < created_at (?S ! ?j)) ?C"
    by (rule candidates_below[OF le])
  then have "newest_first (candidates lower sim u (created_at (?S ! ?j)) q cat s)
      = newest_first (filter (\<lambda>t. created_at t < created_at (?S ! ?j)) ?C)"
    by (rule arg_cong)
  also have "\<dots> = filter (\<lambda>t. created_at t < created_at (?S ! ?j)) ?S"
    unfolding newest_first_def by (rule filter_sort[symmetric])
  also have "\<dots> = drop (Suc ?j) ?S"
    by (rule strict_filter_below[OF newest_first_strict[OF d] j(1)])
  finally show ?thesis using j(2) by simp
qed

text \<open>
  C7, as the code has it. For a limit from 0 to 2147483646, \<^const>\<open>get_todos_cursor\<close>
  with no cursor behaves as with the cursor \<open>now + 1 day\<close>; it returns the newest
  \<open>limit\<close> of the rows created strictly before the cursor (of the caller, passing the
  filters), newest first, at most \<open>limit\<close> of them, each with \<open>has_more\<close> true exactly
  when more than \<open>limit\<close> such rows exist. When these rows have pairwise distinct
  \<open>created_at\<close> and number more than \<open>limit\<close> and at most twice \<open>limit\<close> (25 rows, limit
  20), the first call returns \<open>limit\<close> rows with \<open>has_more\<close> true, and the call with the
  \<open>created_at\<close> of its last row as cursor returns all the remaining rows with
  \<open>has_more\<close> false.
\<close>

theorem cursor_pagination:
  assumes lim: "0 \<le> lmt" "lmt < INT_MAX"
  shows "get_todos_cursor lower sim now u None lmt q cat s =
           get_todos_cursor lower sim now u (Some (now + day)) lmt q cat s
     \<and> (\<exists>rs. get_todos_cursor lower sim now u cur lmt q cat s = Inr rs
          \<and> rs = map (cursor_row_of (categories s)
                        (int (length (candidates lower sim u (cursor_of now cur) q cat s)) > lmt))
                   (take (nat lmt)
                      (newest_first (candidates lower sim u (cursor_of now cur) q cat s)))
          \<and> int (length rs) \<le> lmt
          \<and> (\<forall>r\<in>set rs. cr_created_at r < cursor_of now cur
                \<and> has_more r = (int (length (candidates lower sim u (cursor_of now cur) q cat s)) > lmt))
          \<and> sorted_wrt (\<lambda>a b. cr_created_at a \<ge> cr_created_at b) rs)
     \<and> (distinct (map created_at (candidates lower sim u (cursor_of now cur) q cat s))
          \<and> lmt < int (length (candidates lower sim u (cursor_of now cur) q cat s))
          \<and> int (length (candidates lower sim u (cursor_of now cur) q cat s)) \<le> 2 * lmt \<longrightarrow>
         (\<exists>rs1 rs2. get_todos_cursor lower sim now u cur lmt q cat s = Inr rs1
            \<and> get_todos_cursor lower sim now2 u (Some (cr_created_at (last rs1))) lmt q cat s
                = Inr rs2
            \<and> int (length rs1) = lmt \<and> list_all has_more rs1
            \<and> int (length rs2) = int (length (candidates lower sim u (cursor_of now cur) q cat s)) - lmt
            \<and> list_all (\<lambda>r. \<not> has_more r) rs2
            \<and> map cr_id rs1 @ map cr_id rs2
                = map todo_id (newest_first (candidates lower sim u (cursor_of now cur) q cat s))))"
proof (intro conjI impI)
  show "get_todos_cursor lower sim now u None lmt q cat s =
           get_todos_cursor lower sim now u (Some (now + day)) lmt q cat s"
    by (simp add: get_todos_cursor_def day_def)
next
  let ?C = "candidates lower sim u (cursor_of now cur) q cat s"
  let ?m = "int (length ?C) > lmt"
  let ?rs = "map (cursor_row_of (categories s) ?m) (take (nat lmt) (newest_first ?C))"
  have r: "get_todos_cursor lower sim now u cur lmt q cat s = Inr ?rs"
    by (rule get_todos_cursor_closed[OF lim])
  have l: "int (length ?rs) \<le> lmt"
    using lim by auto
  have each: "cr_created_at x < cursor_of now cur \<and> has_more x = ?m" if "x \<in> set ?rs" for x
  proof -
    from that obtain t where t: "t \<in> set (take (nat lmt) (newest_first ?C))"
      and x: "x = cursor_row_of (categories s) ?m t" by auto
    from t have "t \<in> set (newest_first ?C)" by (rule in_set_takeD)
    then have "created_at t < cursor_of now cur"
      by (simp add: newest_first_def candidates_def)
    with x show ?thesis by (simp add: cursor_row_of_cols)
  qed
  have "sorted_wrt (\<lambda>a b. created_at a \<ge> created_at b) (take (nat lmt) (newest_first ?C))"
    by (intro sorted_wrt_take newest_first_sorted)
  then have srt: "sorted_wrt (\<lambda>a b. cr_created_at a \<ge> cr_created_at b) ?rs"
    by (simp add: sorted_wrt_map cursor_row_of_cols)
  from r l each srt
  show "\<exists>rs. get_todos_cursor lower sim now u cur lmt q cat s = Inr rs
          \<and> rs = ?rs
          \<and> int (length rs) \<le> lmt
          \<and> (\<forall>r\<in>set rs. cr_created_at r < cursor_of now cur \<and> has_more r = ?m)
          \<and> sorted_wrt (\<lambda>a b. cr_created_at a \<ge> cr_created_at b) rs"
    by blast
next
  let ?C = "candidates lower sim u (cursor_of now cur) q cat s"
  let ?S = "newest_first ?C"
  let ?rs1 = "map (cursor_row_of (categories s) (int (length ?C) > lmt)) (take (nat lmt) ?S)"
  let ?c2 = "cr_created_at (last ?rs1)"
  let ?C2 = "candidates lower sim u ?c2 q cat s"
  let ?rs2 = "map (cursor_row_of (categories s) (int (length ?C2) > lmt))
                (take (nat lmt) (newest_first ?C2))"
  assume h: "distinct (map created_at ?C) \<and> lmt < int (length ?C) \<and> int (length ?C) \<le> 2 * lmt"
  then have d: "distinct (map created_at ?C)" and n1: "lmt < int (length ?C)"
    and n2: "int (length ?C) \<le> 2 * lmt" by simp_all
  have len: "length ?S = length ?C" by (simp add: newest_first_def)
  from lim n1 n2 have pos: "0 < lmt" by linarith
  have r1: "get_todos_cursor lower sim now u cur lmt q cat s = Inr ?rs1"
    by (rule get_todos_cursor_closed[OF lim])
  have r2: "get_todos_cursor lower sim now2 u (Some ?c2) lmt q cat s = Inr ?rs2"
    using get_todos_cursor_closed[OF lim, of lower sim now2 u "Some ?c2" q cat s]
    by (simp add: cursor_of_def)
  have l1: "int (length ?rs1) = lmt"
    using lim n1 by (simp add: len)
  have "length (take (nat lmt) ?S) = nat lmt" using n1 lim by (simp add: len)
  then have tne: "take (nat lmt) ?S \<noteq> []" using pos by auto
  have f1: "list_all has_more ?rs1"
    using n1 by (simp add: list_all_iff cursor_row_of_cols)
  have "?c2 = created_at (last (take (nat lmt) ?S))"
    using tne by (simp add: last_map cursor_row_of_cols)
  also have "last (take (nat lmt) ?S) = ?S ! (nat lmt - 1)"
    using pos n1 by (intro last_take) (simp_all add: len)
  finally have c2: "?c2 = created_at (?S ! (nat lmt - 1))" .
  have S2: "newest_first ?C2 = drop (nat lmt) ?S"
    unfolding c2 by (rule second_page[OF pos lim(2) d n1])
  have len2: "length ?C2 = length ?C - nat lmt"
    using arg_cong[OF S2, of length] by (simp add: newest_first_def)
  have t2: "take (nat lmt) (newest_first ?C2) = drop (nat lmt) ?S"
    unfolding S2 using n2 lim by (simp add: len)
  have l2: "int (length ?rs2) = int (length ?C) - lmt"
    unfolding t2 using n1 lim by (simp add: len)
  have nm: "\<not> lmt < int (length ?C2)"
    unfolding len2 using n2 lim by linarith
  have f2: "list_all (\<lambda>r. \<not> has_more r) ?rs2"
    using nm by (simp add: list_all_iff cursor_row_of_cols)
  have "map cr_id ?rs1 @ map cr_id ?rs2
      = map todo_id (take (nat lmt) ?S) @ map todo_id (drop (nat lmt) ?S)"
    unfolding t2 by (simp add: comp_def cursor_row_of_cols)
  also have "\<dots> = map todo_id ?S"
    by (simp only: map_append[symmetric] append_take_drop_id)
  finally have app: "map cr_id ?rs1 @ map cr_id ?rs2 = map todo_id ?S" .
  from r1 r2 l1 f1 l2 f2 app
  show "\<exists>rs1 rs2. get_todos_cursor lower sim now u cur lmt q cat s = Inr rs1
            \<and> get_todos_cursor lower sim now2 u (Some (cr_created_at (last rs1))) lmt q cat s
                = Inr rs2
            \<and> int (length rs1) = lmt \<and> list_all has_more rs1
            \<and> int (length rs2) = int (length ?C) - lmt
            \<and> list_all (\<lambda>r. \<not> has_more r) rs2
            \<and> map cr_id rs1 @ map cr_id rs2 = map todo_id ?S"
    by blast
qed

lemma page_candidates:
  "distinct (map created_at (candidates lower_c similarity_c 10 (cursor_of 100 None) None None page_db))
   \<and> length (candidates lower_c similarity_c 10 (cursor_of 100 None) None None page_db) = 25"
  by code_simp

theorem cursor_pagination_witness:
  "(0::int) \<le> 20 \<and> 20 < INT_MAX
   \<and> distinct (map created_at (candidates lower_c similarity_c 10 (cursor_of 100 None) None None page_db))
   \<and> length (candidates lower_c similarity_c 10 (cursor_of 100 None) None None page_db) = 25
   \<and> (\<exists>rs1 rs2. get_todos_cursor lower_c similarity_c 100 10 None 20 None None page_db = Inr rs1
        \<and> get_todos_cursor lower_c similarity_c 200 10 (Some (cr_created_at (last rs1))) 20 None None
             page_db = Inr rs2
        \<and> int (length rs1) = 20 \<and> list_all has_more rs1
        \<and> int (length rs2) = 5 \<and> list_all (\<lambda>r. \<not> has_more r) rs2)"
proof -
  have a: "(0::int) \<le> 20" and b: "20 < INT_MAX" by (simp_all add: INT_MAX_def)
  note c = page_candidates
  from c have n: "(20::int) < int (length (candidates lower_c similarity_c 10 (cursor_of 100 None) None None page_db))"
    "int (length (candidates lower_c similarity_c 10 (cursor_of 100 None) None None page_db)) \<le> 2 * 20"
    "int (length (candidates lower_c similarity_c 10 (cursor_of 100 None) None None page_db)) - 20 = 5"
    by simp_all
  from cursor_pagination[OF a b, of lower_c similarity_c 100 10 None None page_db None 200] c n(1,2)
  obtain rs1 rs2 where
    "get_todos_cursor lower_c similarity_c 100 10 None 20 None None page_db = Inr rs1"
    "get_todos_cursor lower_c similarity_c 200 10 (Some (cr_created_at (last rs1))) 20 None None
             page_db = Inr rs2"
    "int (length rs1) = 20" "list_all has_more rs1"
    "int (length rs2) = int (length (candidates lower_c similarity_c 10 (cursor_of 100 None) None None page_db)) - 20"
    "list_all (\<lambda>r. \<not> has_more r) rs2"
    by blast
  with a b c n(3) show ?thesis by (metis (lifting))
qed

text \<open>
  C7 as stated fails when the row at the page break shares its \<open>created_at\<close> with the
  next one. Of the 25 todos of \<open>tie_db\<close> the first call returns 20, the last of them
  created at time 6; the second call, with that cursor, returns 4 rows, and todo 6,
  also created at time 6, is on neither page.
\<close>

theorem cursor_pagination_counterexample:
  "length (candidates lower_c similarity_c 10 (cursor_of 100 None) None None tie_db) = 25
   \<and> map_sum id (map (\<lambda>r. (cr_id r, cr_created_at r, has_more r)))
        (get_todos_cursor lower_c similarity_c 100 10 None 20 None None tie_db)
      = Inr [(25, 25, True), (24, 24, True), (23, 23, True), (22, 22, True), (21, 21, True),
             (20, 20, True), (19, 19, True), (18, 18, True), (17, 17, True), (16, 16, True),
             (15, 15, True), (14, 14, True), (13, 13, True), (12, 12, True), (11, 11, True),
             (10, 10, True), (9, 9, True), (8, 8, True), (7, 7, True), (5, 6, True)]
   \<and> map_sum id (map (\<lambda>r. (cr_id r, cr_created_at r, has_more r)))
        (get_todos_cursor lower_c similarity_c 200 10 (Some 6) 20 None None tie_db)
      = Inr [(4, 4, False), (3, 3, False), (2, 2, False), (1, 1, False)]"
  by code_simp

section \<open>Suggestions\<close>

lemma suggestions_closed:
  assumes v: "normalize_query lower q = v" and ne: "v \<noteq> []" and pl: "plain v"
    and lim: "0 \<le> lmt"
  shows "get_search_suggestions lower strxfrm u q lmt s =
     Inr (take (nat lmt) (sort_key (\<lambda>(g, n). (- n, strxfrm g, g))
                            (counted (prefix_suggestions lower u v s))))"
  using ne lim
  by (simp add: get_search_suggestions_def v Let_def counted_def prefix_suggestions_def
      like_plain_prefix[OF pl])

lemma counted_keys: "map fst (counted gs) = remdups gs"
  by (simp add: counted_def comp_def)

lemma sorted_counted:
  "sorted_wrt (suggested_before strxfrm) (sort_key (\<lambda>(g, n). (- n, strxfrm g, g)) xs)"
proof -
  let ?k = "\<lambda>(g, n). (- n, strxfrm g, g)"
  have "sorted (map ?k (sort_key ?k xs))"
    by (rule sorted_sort_key)
  then have "sorted_wrt (\<lambda>a b. ?k a \<le> ?k b) (sort_key ?k xs)"
    by (simp add: sorted_map)
  then show ?thesis
    by (rule sorted_wrt_mono_rel[rotated])
      (auto simp: suggested_before_def collated_le_def less_eq_prod_def split: prod.splits)
qed

lemma suggestion_of_length: "length (suggestion_of ttl) \<le> 50"
  by (simp add: suggestion_of_def ascii_def)

text \<open>
  C8, as the code has it. A query that is empty once trimmed returns the empty list,
  whatever the table holds. Otherwise, for a query without a \<^verbatim>\<open>LIKE\<close> wildcard and a
  limit that is not negative, \<^const>\<open>get_search_suggestions\<close> takes the titles of the
  caller's todos whose lower-case title starts with the normalized query, replaces a
  title of more than 50 characters by its first 47 characters and three dots (50
  characters in all), groups equal suggestions with their number of occurrences, orders
  them by that number, highest first, then by the text in the collation of the
  database, and returns the first \<open>limit\<close>.
\<close>

theorem suggestions_grouped:
  "(normalize_query lower q = [] \<longrightarrow> get_search_suggestions lower strxfrm u q lmt s = Inr [])
   \<and> (normalize_query lower q = v \<and> v \<noteq> [] \<and> plain v \<and> 0 \<le> lmt \<longrightarrow>
        (\<exists>rs. get_search_suggestions lower strxfrm u q lmt s = Inr rs
           \<and> rs = take (nat lmt)
                    (sort_key (\<lambda>(g, n). (- n, strxfrm g, g))
                       (counted (prefix_suggestions lower u v s)))
           \<and> int (length rs) \<le> lmt
           \<and> distinct (map fst rs)
           \<and> sorted_wrt (suggested_before strxfrm) rs
           \<and> (\<forall>r\<in>set rs. fst r \<in> set (prefix_suggestions lower u v s)
                 \<and> snd r = int (count_list (prefix_suggestions lower u v s) (fst r))
                 \<and> snd r \<ge> 1)
           \<and> (int (length (remdups (prefix_suggestions lower u v s))) \<le> lmt \<longrightarrow>
                 set (map fst rs) = set (prefix_suggestions lower u v s))))
   \<and> length (suggestion_of ttl) \<le> 50
   \<and> (length ttl \<le> 50 \<longrightarrow> suggestion_of ttl = ttl)
   \<and> (length ttl > 50 \<longrightarrow> suggestion_of ttl = take 47 ttl @ ascii ''...'')"
proof (intro conjI impI)
  assume "normalize_query lower q = []"
  then show "get_search_suggestions lower strxfrm u q lmt s = Inr []"
    by (simp add: get_search_suggestions_def)
next
  let ?gs = "prefix_suggestions lower u v s"
  let ?all = "sort_key (\<lambda>(g, n). (- n, strxfrm g, g)) (counted ?gs)"
  let ?rs = "take (nat lmt) ?all"
  assume h: "normalize_query lower q = v \<and> v \<noteq> [] \<and> plain v \<and> 0 \<le> lmt"
  then have r: "get_search_suggestions lower strxfrm u q lmt s = Inr ?rs"
    using suggestions_closed by blast
  from h have l: "int (length ?rs) \<le> lmt" by auto
  have dall: "distinct (map fst ?all)"
  proof -
    have "distinct (map fst (counted ?gs))" by (simp add: counted_keys)
    then show ?thesis by (simp add: distinct_map)
  qed
  have d: "distinct (map fst ?rs)"
    using dall by (simp add: take_map[symmetric] distinct_take)
  have srt: "sorted_wrt (suggested_before strxfrm) ?rs"
    by (intro sorted_wrt_take sorted_counted)
  have each: "fst x \<in> set ?gs \<and> snd x = int (count_list ?gs (fst x)) \<and> snd x \<ge> 1"
    if "x \<in> set ?rs" for x
  proof -
    from that have "x \<in> set ?all" by (rule in_set_takeD)
    then have x: "x \<in> set (counted ?gs)" by simp
    then have a: "fst x \<in> set ?gs" "snd x = int (count_list ?gs (fst x))"
      by (auto simp: counted_def)
    from a(1) have "count_list ?gs (fst x) \<noteq> 0" by (simp only: count_list_0_iff not_not)
    then have "count_list ?gs (fst x) > 0" by simp
    with a show ?thesis by simp
  qed
  have full: "set (map fst ?rs) = set ?gs" if "int (length (remdups ?gs)) \<le> lmt"
  proof -
    from that have "length ?all \<le> nat lmt" by (simp add: counted_def)
    then have "?rs = ?all" by simp
    then have "set (map fst ?rs) = fst ` set (counted ?gs)" by simp
    also have "\<dots> = set (map fst (counted ?gs))" by simp
    also have "\<dots> = set ?gs" by (simp only: counted_keys set_remdups)
    finally show ?thesis .
  qed
  from r l d srt each full
  show "\<exists>rs. get_search_suggestions lower strxfrm u q lmt s = Inr rs
           \<and> rs = ?rs
           \<and> int (length rs) \<le> lmt
           \<and> distinct (map fst rs)
           \<and> sorted_wrt (suggested_before strxfrm) rs
           \<and> (\<forall>r\<in>set rs. fst r \<in> set ?gs
                 \<and> snd r = int (count_list ?gs (fst r))
                 \<and> snd r \<ge> 1)
           \<and> (int (length (remdups ?gs)) \<le> lmt \<longrightarrow> set (map fst rs) = set ?gs)"
    by blast
next
  show "length (suggestion_of ttl) \<le> 50" by (rule suggestion_of_length)
next
  assume "length ttl \<le> 50"
  then show "suggestion_of ttl = ttl" by (simp add: suggestion_of_def)
next
  assume "length ttl > 50"
  then show "suggestion_of ttl = take 47 ttl @ ascii ''...''" by (simp add: suggestion_of_def)
qed

lemma apple_query:
  "normalize_query lower_c (Some (ascii '' A'')) = ascii ''a''
   \<and> normalize_query lower_c (Some (ascii ''  '')) = []"
  by code_simp

lemma apple_suggestions:
  "take (nat 5) (sort_key (\<lambda>(g, n). (- n, strxfrm_c g, g))
                   (counted (prefix_suggestions lower_c 10 (ascii ''a'') long_db)))
     = [(ascii ''Apple'', 2), (ascii (replicate 47 (CHR ''a'') @ ''...''), 1),
        (ascii ''apple'', 1)]"
  by code_simp

text \<open>
  The locale decides what is suggested and in what order: with a \<^verbatim>\<open>LOWER\<close> that
  knows the accented letters the query \<open>U+00C9\<close> suggests the title that begins with
  this letter; the query \<open>e\<close> suggests \<open>Eel\<close> before \<open>ear\<close> in the collation \<^verbatim>\<open>C\<close>,
  and \<open>ear\<close> before \<open>Eel\<close> in a collation that compares the lower-case texts first.
\<close>

lemma accent_queries:
  "normalize_query lower_latin1 (Some [0xC9]) = [0xE9]"
  "normalize_query lower_latin1 (Some (ascii ''e'')) = ascii ''e''"
  by code_simp+

lemma accent_suggestions:
  "take (nat 5) (sort_key (\<lambda>(g, n). (- n, strxfrm_c g, g))
                   (counted (prefix_suggestions lower_latin1 10 [0xE9] accent_db)))
     = [(0xC9 # ascii ''cole'', 1)]"
  "take (nat 5) (sort_key (\<lambda>(g, n). (- n, strxfrm_c g, g))
                   (counted (prefix_suggestions lower_latin1 10 (ascii ''e'') accent_db)))
     = [(ascii ''Eel'', 1), (ascii ''ear'', 1)]"
  "take (nat 5) (sort_key (\<lambda>(g, n). (- n, lower_latin1 g, g))
                   (counted (prefix_suggestions lower_latin1 10 (ascii ''e'') accent_db)))
     = [(ascii ''ear'', 1), (ascii ''Eel'', 1)]"
  by code_simp+

theorem suggestions_grouped_witness:
  "normalize_query lower_c (Some (ascii ''  '')) = []
   \<and> get_search_suggestions lower_c strxfrm_c 10 (Some (ascii ''  '')) 5 long_db = Inr []
   \<and> normalize_query lower_c (Some (ascii '' A'')) = ascii ''a'' \<and> plain (ascii ''a'')
   \<and> (0::int) \<le> 5
   \<and> get_search_suggestions lower_c strxfrm_c 10 (Some (ascii '' A'')) 5 long_db
       = Inr [(ascii ''Apple'', 2), (ascii (replicate 47 (CHR ''a'') @ ''...''), 1),
              (ascii ''apple'', 1)]
   \<and> length (ascii long_title) > 50
   \<and> suggestion_of (ascii long_title) = take 47 (ascii long_title) @ ascii ''...''
   \<and> length (ascii ''Apple'') \<le> 50
   \<and> suggestion_of (ascii ''Apple'') = ascii ''Apple''
   \<and> length (replicate 20 (0x3042 :: uchar)) \<le> 50
   \<and> suggestion_of (replicate 20 0x3042) = replicate 20 0x3042
   \<and> normalize_query lower_latin1 (Some [0xC9]) = [0xE9] \<and> plain [0xE9]
   \<and> get_search_suggestions lower_latin1 strxfrm_c 10 (Some [0xC9]) 5 accent_db
       = Inr [(0xC9 # ascii ''cole'', 1)]
   \<and> normalize_query lower_latin1 (Some (ascii ''e'')) = ascii ''e'' \<and> plain (ascii ''e'')
   \<and> get_search_suggestions lower_latin1 strxfrm_c 10 (Some (ascii ''e'')) 5 accent_db
       = Inr [(ascii ''Eel'', 1), (ascii ''ear'', 1)]
   \<and> get_search_suggestions lower_latin1 lower_latin1 10 (Some (ascii ''e'')) 5 accent_db
       = Inr [(ascii ''ear'', 1), (ascii ''Eel'', 1)]"
proof -
  have e: "normalize_query lower_c (Some (ascii ''  '')) = []"
    and a: "normalize_query lower_c (Some (ascii '' A'')) = ascii ''a''"
    using apple_query by simp_all
  have s5: "length (ascii ''Apple'') \<le> 50" by (simp add: ascii_def)
  from suggestions_grouped[where ttl = "ascii ''Apple''"] s5
  have r4: "suggestion_of (ascii ''Apple'') = ascii ''Apple''" by blast
  have s6: "length (replicate 20 (0x3042 :: uchar)) \<le> 50" by simp
  from suggestions_grouped[where ttl = "replicate 20 0x3042"] s6
  have r5: "suggestion_of (replicate 20 0x3042) = replicate 20 0x3042" by blast
  have p: "plain (ascii ''a'')" "plain [0xE9]" "plain (ascii ''e'')"
    by (simp_all add: plain_def ascii_def)
  have ne: "ascii ''a'' \<noteq> []" "[0xE9 :: uchar] \<noteq> []" "ascii ''e'' \<noteq> []"
    by (simp_all add: ascii_def)
  have l: "length (ascii long_title) > 50" by (simp add: long_title_def ascii_def)
  from suggestions_grouped[where lower = lower_c and q = "Some (ascii ''  '')"
      and strxfrm = strxfrm_c and u = 10 and lmt = 5 and s = long_db
      and ttl = "ascii long_title"] e l
  have r1: "get_search_suggestions lower_c strxfrm_c 10 (Some (ascii ''  '')) 5 long_db = Inr []"
    and r3: "suggestion_of (ascii long_title) = take 47 (ascii long_title) @ ascii ''...''"
    by blast+
  from suggestions_grouped[where lower = lower_c and q = "Some (ascii '' A'')"
      and strxfrm = strxfrm_c and u = 10 and lmt = 5 and s = long_db and v = "ascii ''a''"]
    a p(1) ne(1)
  have "get_search_suggestions lower_c strxfrm_c 10 (Some (ascii '' A'')) 5 long_db
      = Inr (take (nat 5) (sort_key (\<lambda>(g, n). (- n, strxfrm_c g, g))
               (counted (prefix_suggestions lower_c 10 (ascii ''a'') long_db))))"
    by auto
  then have r2: "get_search_suggestions lower_c strxfrm_c 10 (Some (ascii '' A'')) 5 long_db
       = Inr [(ascii ''Apple'', 2), (ascii (replicate 47 (CHR ''a'') @ ''...''), 1),
              (ascii ''apple'', 1)]"
    by (simp only: apple_suggestions)
  from suggestions_grouped[where lower = lower_latin1 and q = "Some [0xC9]"
      and strxfrm = strxfrm_c and u = 10 and lmt = 5 and s = accent_db and v = "[0xE9]"]
    accent_queries(1) p(2) ne(2)
  have "get_search_suggestions lower_latin1 strxfrm_c 10 (Some [0xC9]) 5 accent_db
      = Inr (take (nat 5) (sort_key (\<lambda>(g, n). (- n, strxfrm_c g, g))
               (counted (prefix_suggestions lower_latin1 10 [0xE9] accent_db))))"
    by auto
  then have r6: "get_search_suggestions lower_latin1 strxfrm_c 10 (Some [0xC9]) 5 accent_db
       = Inr [(0xC9 # ascii ''cole'', 1)]"
    by (simp only: accent_suggestions)
  from suggestions_grouped[where lower = lower_latin1 and q = "Some (ascii ''e'')"
      and strxfrm = strxfrm_c and u = 10 and lmt = 5 and s = accent_db and v = "ascii ''e''"]
    accent_queries(2) p(3) ne(3)
  have "get_search_suggestions lower_latin1 strxfrm_c 10 (Some (ascii ''e'')) 5 accent_db
      = Inr (take (nat 5) (sort_key (\<lambda>(g, n). (- n, strxfrm_c g, g))
               (counted (prefix_suggestions lower_latin1 10 (ascii ''e'') accent_db))))"
    by auto
  then have r7: "get_search_suggestions lower_latin1 strxfrm_c 10 (Some (ascii ''e'')) 5
        accent_db = Inr [(ascii ''Eel'', 1), (ascii ''ear'', 1)]"
    by (simp only: accent_suggestions)
  from suggestions_grouped[where lower = lower_latin1 and q = "Some (ascii ''e'')"
      and strxfrm = lower_latin1 and u = 10 and lmt = 5 and s = accent_db
      and v = "ascii ''e''"]
    accent_queries(2) p(3) ne(3)
  have "get_search_suggestions lower_latin1 lower_latin1 10 (Some (ascii ''e'')) 5 accent_db
      = Inr (take (nat 5) (sort_key (\<lambda>(g, n). (- n, lower_latin1 g, g))
               (counted (prefix_suggestions lower_latin1 10 (ascii ''e'') accent_db))))"
    by auto
  then have r8: "get_search_suggestions lower_latin1 lower_latin1 10 (Some (ascii ''e'')) 5
        accent_db = Inr [(ascii ''ear'', 1), (ascii ''Eel'', 1)]"
    by (simp only: accent_suggestions)
  have z: "(0::int) \<le> 5" by simp
  show ?thesis
    by (intro conjI e r1 a p z r2 l r3 s5 r4 s6 r5 accent_queries r6 r7 r8)
qed

text \<open>
  C8 as stated fails on the truncation: a title of 51 characters is suggested as its
  first 47 characters and three dots, 50 characters in all, not as its first 50
  characters and an ellipsis. It also fails on a query with a wildcard: the query
  \<open>a_p\<close> suggests \<open>Apple\<close> and \<open>apple\<close>, which do not start with it.
\<close>

theorem suggestions_grouped_counterexample:
  "length (ascii long_title) = 51
   \<and> get_search_suggestions lower_c strxfrm_c 10 (Some (ascii '' A'')) 5 long_db
       = Inr [(ascii ''Apple'', 2), (ascii (replicate 47 (CHR ''a'') @ ''...''), 1),
              (ascii ''apple'', 1)]
   \<and> length (ascii (replicate 47 (CHR ''a'') @ ''...'')) = 50
   \<and> ascii (replicate 47 (CHR ''a'') @ ''...'') \<noteq> take 50 (ascii long_title) @ ascii ''...''
   \<and> \<not> prefix (ascii ''a_p'') (lower_c (ascii ''Apple''))
   \<and> get_search_suggestions lower_c strxfrm_c 10 (Some (ascii ''a_p'')) 5 long_db
       = Inr [(ascii ''Apple'', 2), (ascii ''apple'', 1)]"
  by code_simp

end
